theory Spec2Isabelle
  imports Main "HOL-Library.AList" "HOL-Library.Sublist"
begin

section \<open>Values of the host language\<close>

text \<open>
  The service is written in TypeScript. A request payload has the type \<open>any\<close>; the
  model keeps the kinds of value the service tells apart: what \<open>typeof\<close> answers, what
  is falsy, and what is an instance of \<open>FormData\<close>. Numbers are the integer-valued ones.
\<close>

datatype jsval =
    JUndefined
  | JNull
  | JBool bool
  | JNum int
  | JStr string
  | JArr "jsval list"
  | JObj "(string \<times> jsval) list"
  | JBuffer "nat list"
  | JStream nat
  | JFormData "(string \<times> string) list"

text \<open>\<open>!v\<close> is \<open>\<not> truthy v\<close>: undefined, null, false, 0 and the empty string are falsy.\<close>

fun truthy :: "jsval \<Rightarrow> bool" where
  "truthy JUndefined = False"
| "truthy JNull = False"
| "truthy (JBool b) = b"
| "truthy (JNum n) = (n \<noteq> 0)"
| "truthy (JStr s) = (s \<noteq> [])"
| "truthy (JArr xs) = True"
| "truthy (JObj ps) = True"
| "truthy (JBuffer bs) = True"
| "truthy (JStream h) = True"
| "truthy (JFormData fs) = True"

fun typeof :: "jsval \<Rightarrow> string" where
  "typeof JUndefined = ''undefined''"
| "typeof JNull = ''object''"
| "typeof (JBool b) = ''boolean''"
| "typeof (JNum n) = ''number''"
| "typeof (JStr s) = ''string''"
| "typeof (JArr xs) = ''object''"
| "typeof (JObj ps) = ''object''"
| "typeof (JBuffer bs) = ''object''"
| "typeof (JStream h) = ''object''"
| "typeof (JFormData fs) = ''object''"

fun instanceof_FormData :: "jsval \<Rightarrow> bool" where
  "instanceof_FormData (JFormData fs) = True"
| "instanceof_FormData v = False"

datatype error = Error string

datatype Method = GET | POST | PUT | DELETE | PATCH | HEAD | OPTIONS

datatype ResponseType = RT_json | RT_text | RT_stream | RT_arraybuffer

section \<open>Header objects and the store\<close>

text \<open>
  A \<open>Record<string, string>\<close> is an object: its properties in insertion order. The
  service writes into one such object (\<open>headers["Content-Type"] = ...\<close>), so header
  objects live in a store and are held by reference. An address is a position in the
  store; a new object is put at the end. The component \<open>ext\<close> is whatever else the
  interceptors and the transport can read and change.
\<close>

type_synonym addr = nat

type_synonym hdrs = "(string \<times> string) list"

record 'x world =
  heap :: "hdrs list"
  ext :: 'x

definition deref :: "'x world \<Rightarrow> addr option \<Rightarrow> hdrs" where
  "deref w r = (case r of None \<Rightarrow> [] | Some a \<Rightarrow> if a < length (heap w) then heap w ! a else [])"

definition alloc :: "hdrs \<Rightarrow> 'x world \<Rightarrow> addr \<times> 'x world" where
  "alloc h w = (length (heap w), w\<lparr>heap := heap w @ [h]\<rparr>)"

text \<open>\<open>{...src}\<close> onto an object under construction: each property of \<open>src\<close> is set in turn.\<close>

definition spread :: "hdrs \<Rightarrow> hdrs \<Rightarrow> hdrs" where
  "spread src obj = fold (\<lambda>(k, v). AList.update k v) src obj"

section \<open>The data model\<close>

record RequestConfig =
  cfg_url :: "string option"
  cfg_method :: "Method option"
  cfg_headers :: "addr option"
  cfg_params :: "(string \<times> string) list option"
  cfg_data :: jsval
  cfg_timeout :: "int option"
  cfg_responseType :: "ResponseType option"

record HttpResponse =
  res_data :: jsval
  res_status :: int
  res_statusText :: string
  res_headers :: "(string \<times> string list) list"

text \<open>What the transport resolves to: the body's readers are kept as their outcomes.\<close>

record BodyReadable =
  body_json :: "error + jsval"
  body_text :: "error + string"
  body_arrayBuffer :: "error + nat list"
  body_stream :: nat

record UndiciResponse =
  statusCode :: int
  headers :: "(string \<times> string list) list"
  body :: BodyReadable

record UndiciOptions =
  uo_method :: Method
  uo_headers :: addr
  uo_body :: jsval
  uo_dispatcher :: nat
  uo_bodyTimeout :: "int option"

record 'x RequestInterceptor =
  rq_onRequest :: "(RequestConfig \<Rightarrow> 'x world \<Rightarrow> (error + RequestConfig) \<times> 'x world) option"
  rq_onError :: "(error \<Rightarrow> 'x world \<Rightarrow> (error + unit) \<times> 'x world) option"

record 'x ResponseInterceptor =
  rs_onResponse :: "(HttpResponse \<Rightarrow> 'x world \<Rightarrow> (error + HttpResponse) \<times> 'x world) option"
  rs_onError :: "(error \<Rightarrow> 'x world \<Rightarrow> (error + unit) \<times> 'x world) option"

record 'x InterceptorOptions =
  io_request :: "'x RequestInterceptor list option"
  io_response :: "'x ResponseInterceptor list option"

record 'x HttpModuleOptions =
  opt_baseURL :: "string option"
  opt_headers :: "addr option"
  opt_timeout :: "int option"
  opt_agent :: "nat option"
  opt_connections :: "int option"
  opt_pipelining :: "int option"
  opt_keepAliveTimeout :: "int option"
  opt_keepAliveMaxTimeout :: "int option"
  opt_connectTimeout :: "int option"
  opt_bodyTimeout :: "int option"
  opt_headersTimeout :: "int option"
  opt_interceptors :: "'x InterceptorOptions option"

record 'x HttpService =
  agent :: nat
  requestInterceptors :: "'x RequestInterceptor list"
  responseInterceptors :: "'x ResponseInterceptor list"
  options :: "'x HttpModuleOptions"

text \<open>
  The functions of the platform the service calls: \<open>request\<close> of the transport, which
  may reject, and \<open>JSON.stringify\<close>.
\<close>

record 'x platform =
  undici_request :: "string \<Rightarrow> UndiciOptions \<Rightarrow> 'x world \<Rightarrow> (error + UndiciResponse) \<times> 'x world"
  JSON_stringify :: "jsval \<Rightarrow> string"

text \<open>
  The log of what a call does, in the order it does it: each hook invocation, with the
  position of its interceptor in its list and the argument it receives, and each
  dispatch, with the URL, the options and the content of the headers object handed over.
\<close>

datatype event =
    ReqOnRequest nat RequestConfig
  | ReqOnError nat error
  | Dispatch string UndiciOptions hdrs
  | ResOnResponse nat HttpResponse
  | ResOnError nat error

section \<open>Constants\<close>

text \<open>
  Modelled from the spec: the file of constants \<open>HTTP_DEFAULTS\<close> is not among the
  sources. The spec gives the status text policy ("OK" for status 200, a generic "Error"
  text otherwise), the content type \<open>application/json\<close> and the default response type
  \<open>json\<close>.
\<close>

definition OK_STATUS :: int where
  "OK_STATUS = 200"

definition OK_STATUS_TEXT :: string where
  "OK_STATUS_TEXT = ''OK''"

definition ERROR_STATUS_TEXT :: string where
  "ERROR_STATUS_TEXT = ''Error''"

definition DEFAULT_CONTENT_TYPE :: string where
  "DEFAULT_CONTENT_TYPE = ''application/json''"

definition DEFAULT_RESPONSE_TYPE :: ResponseType where
  "DEFAULT_RESPONSE_TYPE = RT_json"

text \<open>
  Modelled from the spec: the default method is not stated there; the transport's own
  default is taken. No theorem below depends on it.
\<close>

definition DEFAULT_METHOD :: Method where
  "DEFAULT_METHOD = GET"

section \<open>The service\<close>

text \<open>
  The constructor: \<open>initializeInterceptors\<close> takes the two lists from the options. The
  agent is the one \<open>createAgent\<close> gives, the configured one or a new pool; it is an
  opaque handle here.
\<close>

definition initializeInterceptors :: "'x HttpService \<Rightarrow> 'x HttpService" where
  "initializeInterceptors this =
     (case opt_interceptors (options this) of
        None \<Rightarrow> this
      | Some ics \<Rightarrow>
          this\<lparr>requestInterceptors := (case io_request ics of Some l \<Rightarrow> l | None \<Rightarrow> []),
               responseInterceptors := (case io_response ics of Some l \<Rightarrow> l | None \<Rightarrow> [])\<rparr>)"

definition new_HttpService :: "nat \<Rightarrow> 'x HttpModuleOptions \<Rightarrow> 'x HttpService" where
  "new_HttpService ag opts =
     initializeInterceptors
       \<lparr>agent = ag, requestInterceptors = [], responseInterceptors = [], options = opts\<rparr>"

subsection \<open>Request interceptors\<close>

text \<open>
  The loop of \<open>applyRequestInterceptors\<close>, from position \<open>i\<close> of the list on. A hook that
  throws is an \<open>Inl\<close>; an \<open>onError\<close> hook that throws replaces the error that is rethrown.
\<close>

fun applyRequestInterceptors_from ::
  "nat \<Rightarrow> 'x RequestInterceptor list \<Rightarrow> RequestConfig \<Rightarrow> 'x world \<times> event list
     \<Rightarrow> (error + RequestConfig) \<times> 'x world \<times> event list" where
  "applyRequestInterceptors_from i [] finalConfig s = (Inr finalConfig, s)"
| "applyRequestInterceptors_from i (interceptor # rest) finalConfig (w, lg) =
     (case rq_onRequest interceptor of
        None \<Rightarrow> applyRequestInterceptors_from (Suc i) rest finalConfig (w, lg)
      | Some f \<Rightarrow>
          (case f finalConfig w of
             (Inr c, w') \<Rightarrow>
               applyRequestInterceptors_from (Suc i) rest c (w', lg @ [ReqOnRequest i finalConfig])
           | (Inl e, w') \<Rightarrow>
               (case rq_onError interceptor of
                  None \<Rightarrow> (Inl e, w', lg @ [ReqOnRequest i finalConfig])
                | Some g \<Rightarrow>
                    (case g e w' of
                       (Inr u, w'') \<Rightarrow>
                         (Inl e, w'', lg @ [ReqOnRequest i finalConfig, ReqOnError i e])
                     | (Inl e', w'') \<Rightarrow>
                         (Inl e', w'', lg @ [ReqOnRequest i finalConfig, ReqOnError i e])))))"

definition applyRequestInterceptors ::
  "'x HttpService \<Rightarrow> RequestConfig \<Rightarrow> 'x world \<times> event list
     \<Rightarrow> (error + RequestConfig) \<times> 'x world \<times> event list" where
  "applyRequestInterceptors this config s =
     applyRequestInterceptors_from 0 (requestInterceptors this) config s"

subsection \<open>Request builder\<close>

text \<open>
  \<open>new URLSearchParams(params).toString()\<close>: the pairs in order, names and values
  percent-encoded as \<open>application/x-www-form-urlencoded\<close> (letters, digits and \<open>*-._\<close>
  stay, a space becomes \<open>+\<close>, every other byte becomes \<open>%XX\<close>), joined by \<open>&\<close>. The
  values are held as the strings the constructor converts them to.
\<close>

definition hexDigit :: "nat \<Rightarrow> char" where
  "hexDigit n = ''0123456789ABCDEF'' ! n"

definition isUrlencodedSafe :: "char \<Rightarrow> bool" where
  "isUrlencodedSafe c =
     (let n = (of_char c :: nat)
      in (48 \<le> n \<and> n \<le> 57) \<or> (65 \<le> n \<and> n \<le> 90) \<or> (97 \<le> n \<and> n \<le> 122)
         \<or> n = 42 \<or> n = 45 \<or> n = 46 \<or> n = 95)"

definition percentEncodeByte :: "char \<Rightarrow> string" where
  "percentEncodeByte c =
     (if isUrlencodedSafe c then [c]
      else if c = CHR '' '' then ''+''
      else [CHR ''%'', hexDigit (of_char c div 16), hexDigit (of_char c mod 16)])"

definition urlencode :: "string \<Rightarrow> string" where
  "urlencode s = concat (map percentEncodeByte s)"

fun joinWith :: "string \<Rightarrow> string list \<Rightarrow> string" where
  "joinWith sep [] = []"
| "joinWith sep [x] = x"
| "joinWith sep (x # y # ys) = x @ sep @ joinWith sep (y # ys)"

definition URLSearchParams_toString :: "(string \<times> string) list \<Rightarrow> string" where
  "URLSearchParams_toString ps =
     joinWith ''&'' (map (\<lambda>(k, v). urlencode k @ ''='' @ urlencode v) ps)"

definition shouldPrependBaseUrl :: "'x HttpService \<Rightarrow> string \<Rightarrow> bool" where
  "shouldPrependBaseUrl this u =
     (case opt_baseURL (options this) of
        None \<Rightarrow> False
      | Some b \<Rightarrow> b \<noteq> [] \<and> \<not> prefix ''http'' u)"

definition appendQueryParams :: "string \<Rightarrow> (string \<times> string) list option \<Rightarrow> string" where
  "appendQueryParams u ps =
     (case ps of
        None \<Rightarrow> u
      | Some q \<Rightarrow>
          (let queryString = URLSearchParams_toString q;
               separator = (if CHR ''?'' \<in> set u then ''&'' else ''?'')
           in u @ separator @ queryString))"

definition buildUrl :: "'x HttpService \<Rightarrow> RequestConfig \<Rightarrow> string" where
  "buildUrl this config =
     (let baseUrl = (case cfg_url config of Some u \<Rightarrow> u | None \<Rightarrow> []);
          urlWithBase = (if shouldPrependBaseUrl this baseUrl
                         then (case opt_baseURL (options this) of
                                 Some b \<Rightarrow> b @ baseUrl
                               | None \<Rightarrow> ''undefined'' @ baseUrl)
                         else baseUrl)
      in appendQueryParams urlWithBase (cfg_params config))"

text \<open>\<open>mergeHeaders\<close> builds a new object: the defaults spread first, then the call's.\<close>

definition mergeHeaders :: "'x HttpService \<Rightarrow> RequestConfig \<Rightarrow> 'x world \<Rightarrow> addr \<times> 'x world" where
  "mergeHeaders this config w =
     alloc (spread (deref w (cfg_headers config)) (spread (deref w (opt_headers (options this))) [])) w"

definition isJsonSerializable :: "jsval \<Rightarrow> bool" where
  "isJsonSerializable d = (typeof d = ''object'' \<and> \<not> instanceof_FormData d)"

text \<open>
  \<open>prepareRequestBody\<close> writes into the object it is given: \<open>headers["Content-Type"] =
  headers["Content-Type"] || DEFAULT_CONTENT_TYPE\<close>, where an absent or empty value is
  falsy.
\<close>

definition prepareRequestBody ::
  "'x platform \<Rightarrow> RequestConfig \<Rightarrow> addr \<Rightarrow> 'x world \<Rightarrow> jsval \<times> 'x world" where
  "prepareRequestBody pf config h w =
     (if \<not> truthy (cfg_data config) then (JUndefined, w)
      else
        (let shouldStringify = isJsonSerializable (cfg_data config)
         in if shouldStringify then
              (let obj = heap w ! h;
                   ct = (case map_of obj ''Content-Type'' of
                           Some v \<Rightarrow> if v \<noteq> [] then v else DEFAULT_CONTENT_TYPE
                         | None \<Rightarrow> DEFAULT_CONTENT_TYPE)
               in (JStr (JSON_stringify pf (cfg_data config)),
                   w\<lparr>heap := (heap w)[h := AList.update ''Content-Type'' ct obj]\<rparr>))
            else (cfg_data config, w)))"

subsection \<open>Dispatch and decoding\<close>

definition performRequest ::
  "'x platform \<Rightarrow> 'x HttpService \<Rightarrow> string \<Rightarrow> RequestConfig \<Rightarrow> addr \<Rightarrow> jsval
     \<Rightarrow> 'x world \<times> event list \<Rightarrow> (error + UndiciResponse) \<times> 'x world \<times> event list" where
  "performRequest pf this u config h b s =
     (case s of (w, lg) \<Rightarrow>
        (let opts = \<lparr>uo_method = (case cfg_method config of Some m \<Rightarrow> m | None \<Rightarrow> DEFAULT_METHOD),
                     uo_headers = h,
                     uo_body = b,
                     uo_dispatcher = agent this,
                     uo_bodyTimeout =
                       (case cfg_timeout config of
                          Some t \<Rightarrow> if t \<noteq> 0 then Some t else opt_timeout (options this)
                        | None \<Rightarrow> opt_timeout (options this))\<rparr>
         in (case undici_request pf u opts w of
               (r, w') \<Rightarrow> (r, w', lg @ [Dispatch u opts (heap w ! h)]))))"

definition parseResponseData :: "UndiciResponse \<Rightarrow> RequestConfig \<Rightarrow> error + jsval" where
  "parseResponseData response config =
     (let responseType = (case cfg_responseType config of Some t \<Rightarrow> t | None \<Rightarrow> DEFAULT_RESPONSE_TYPE)
      in case responseType of
           RT_json \<Rightarrow> body_json (body response)
         | RT_text \<Rightarrow> map_sum id JStr (body_text (body response))
         | RT_arraybuffer \<Rightarrow> map_sum id JBuffer (body_arrayBuffer (body response))
         | RT_stream \<Rightarrow> Inr (JStream (body_stream (body response))))"

definition getStatusText :: "int \<Rightarrow> string" where
  "getStatusText code = (if code = OK_STATUS then OK_STATUS_TEXT else ERROR_STATUS_TEXT)"

definition createHttpResponse :: "UndiciResponse \<Rightarrow> jsval \<Rightarrow> HttpResponse" where
  "createHttpResponse response d =
     \<lparr>res_data = d,
      res_status = statusCode response,
      res_statusText = getStatusText (statusCode response),
      res_headers = headers response\<rparr>"

subsection \<open>Response interceptors and the error broadcast\<close>

fun applyResponseInterceptors_from ::
  "nat \<Rightarrow> 'x ResponseInterceptor list \<Rightarrow> HttpResponse \<Rightarrow> 'x world \<times> event list
     \<Rightarrow> (error + HttpResponse) \<times> 'x world \<times> event list" where
  "applyResponseInterceptors_from i [] finalResponse s = (Inr finalResponse, s)"
| "applyResponseInterceptors_from i (interceptor # rest) finalResponse (w, lg) =
     (case rs_onResponse interceptor of
        None \<Rightarrow> applyResponseInterceptors_from (Suc i) rest finalResponse (w, lg)
      | Some f \<Rightarrow>
          (case f finalResponse w of
             (Inr r, w') \<Rightarrow>
               applyResponseInterceptors_from (Suc i) rest r (w', lg @ [ResOnResponse i finalResponse])
           | (Inl e, w') \<Rightarrow>
               (case rs_onError interceptor of
                  None \<Rightarrow> (Inl e, w', lg @ [ResOnResponse i finalResponse])
                | Some g \<Rightarrow>
                    (case g e w' of
                       (Inr u, w'') \<Rightarrow>
                         (Inl e, w'', lg @ [ResOnResponse i finalResponse, ResOnError i e])
                     | (Inl e', w'') \<Rightarrow>
                         (Inl e', w'', lg @ [ResOnResponse i finalResponse, ResOnError i e])))))"

definition applyResponseInterceptors ::
  "'x HttpService \<Rightarrow> HttpResponse \<Rightarrow> 'x world \<times> event list
     \<Rightarrow> (error + HttpResponse) \<times> 'x world \<times> event list" where
  "applyResponseInterceptors this response s =
     applyResponseInterceptors_from 0 (responseInterceptors this) response s"

text \<open>
  \<open>handleRequestError\<close>: every response interceptor with an \<open>onError\<close> hook gets the
  error. A hook that throws ends the loop with its own error.
\<close>

fun handleRequestError_from ::
  "nat \<Rightarrow> 'x ResponseInterceptor list \<Rightarrow> error \<Rightarrow> 'x world \<times> event list
     \<Rightarrow> (error + unit) \<times> 'x world \<times> event list" where
  "handleRequestError_from i [] err s = (Inr (), s)"
| "handleRequestError_from i (interceptor # rest) err (w, lg) =
     (case rs_onError interceptor of
        None \<Rightarrow> handleRequestError_from (Suc i) rest err (w, lg)
      | Some g \<Rightarrow>
          (case g err w of
             (Inr u, w') \<Rightarrow> handleRequestError_from (Suc i) rest err (w', lg @ [ResOnError i err])
           | (Inl e', w') \<Rightarrow> (Inl e', w', lg @ [ResOnError i err])))"

definition handleRequestError ::
  "'x HttpService \<Rightarrow> error \<Rightarrow> 'x world \<times> event list \<Rightarrow> (error + unit) \<times> 'x world \<times> event list" where
  "handleRequestError this err s = handleRequestError_from 0 (responseInterceptors this) err s"

subsection \<open>The executor\<close>

text \<open>The body of the \<open>try\<close> block of \<open>executeRequest\<close>.\<close>

definition tryDispatch ::
  "'x platform \<Rightarrow> 'x HttpService \<Rightarrow> string \<Rightarrow> RequestConfig \<Rightarrow> addr \<Rightarrow> jsval
     \<Rightarrow> 'x world \<times> event list \<Rightarrow> (error + HttpResponse) \<times> 'x world \<times> event list" where
  "tryDispatch pf this u finalConfig h b s =
     (case performRequest pf this u finalConfig h b s of
        (Inl e, s1) \<Rightarrow> (Inl e, s1)
      | (Inr response, s1) \<Rightarrow>
          (case parseResponseData response finalConfig of
             Inl e \<Rightarrow> (Inl e, s1)
           | Inr d \<Rightarrow> applyResponseInterceptors this (createHttpResponse response d) s1))"

definition executeRequest ::
  "'x platform \<Rightarrow> 'x HttpService \<Rightarrow> RequestConfig \<Rightarrow> 'x world \<times> event list
     \<Rightarrow> (error + HttpResponse) \<times> 'x world \<times> event list" where
  "executeRequest pf this config s =
     (case applyRequestInterceptors this config s of
        (Inl e, s1) \<Rightarrow> (Inl e, s1)
      | (Inr finalConfig, (w1, lg1)) \<Rightarrow>
          (let u = buildUrl this finalConfig;
               (h, w2) = mergeHeaders this finalConfig w1;
               (b, w3) = prepareRequestBody pf finalConfig h w2
           in case tryDispatch pf this u finalConfig h b (w3, lg1) of
                (Inr r, s2) \<Rightarrow> (Inr r, s2)
              | (Inl e, s2) \<Rightarrow>
                  (case handleRequestError this e s2 of
                     (Inr u, s3) \<Rightarrow> (Inl e, s3)
                   | (Inl e', s3) \<Rightarrow> (Inl e', s3))))"

subsection \<open>The facade\<close>

text \<open>
  \<open>request\<close> wraps the promise of \<open>executeRequest\<close> in an observable that rethrows the
  error it catches: the outcome is that of \<open>executeRequest\<close>. Each verb spreads the
  caller's configuration, if any, and sets the URL, the method and the payload.
\<close>

definition emptyConfig :: RequestConfig where
  "emptyConfig =
     \<lparr>cfg_url = None, cfg_method = None, cfg_headers = None, cfg_params = None,
      cfg_data = JUndefined, cfg_timeout = None, cfg_responseType = None\<rparr>"

definition request ::
  "'x platform \<Rightarrow> 'x HttpService \<Rightarrow> RequestConfig \<Rightarrow> 'x world \<times> event list
     \<Rightarrow> (error + HttpResponse) \<times> 'x world \<times> event list" where
  "request pf this config s = executeRequest pf this config s"

definition withConfig :: "RequestConfig option \<Rightarrow> RequestConfig" where
  "withConfig config = (case config of None \<Rightarrow> emptyConfig | Some c \<Rightarrow> c)"

definition get where
  "get pf this u config = request pf this ((withConfig config)\<lparr>cfg_url := Some u, cfg_method := Some GET\<rparr>)"

definition post where
  "post pf this u d config =
     request pf this ((withConfig config)\<lparr>cfg_url := Some u, cfg_method := Some POST, cfg_data := d\<rparr>)"

definition put where
  "put pf this u d config =
     request pf this ((withConfig config)\<lparr>cfg_url := Some u, cfg_method := Some PUT, cfg_data := d\<rparr>)"

definition delete where
  "delete pf this u config =
     request pf this ((withConfig config)\<lparr>cfg_url := Some u, cfg_method := Some DELETE\<rparr>)"

definition patch where
  "patch pf this u d config =
     request pf this ((withConfig config)\<lparr>cfg_url := Some u, cfg_method := Some PATCH, cfg_data := d\<rparr>)"

definition head where
  "head pf this u config =
     request pf this ((withConfig config)\<lparr>cfg_url := Some u, cfg_method := Some HEAD\<rparr>)"

section \<open>Reading the log and a URL\<close>

text \<open>What a log says was handed to the transport: URL, options and headers content.\<close>

fun dispatches :: "event list \<Rightarrow> (string \<times> UndiciOptions \<times> hdrs) list" where
  "dispatches [] = []"
| "dispatches (Dispatch u opts hs # es) = (u, opts, hs) # dispatches es"
| "dispatches (e # es) = dispatches es"

text \<open>
  The fragment of a URL starts at its first \<open>#\<close>. The query component is what follows
  the first \<open>?\<close> of the URL without its fragment; its pairs are separated by \<open>&\<close>,
  empty ones being skipped, and the key of a pair is what precedes its first \<open>=\<close>.
  This is how the keys of a dispatched URL are read back.
\<close>

fun splitOn :: "char \<Rightarrow> string \<Rightarrow> string list" where
  "splitOn c [] = [[]]"
| "splitOn c (x # xs) =
     (if x = c then [] # splitOn c xs
      else (case splitOn c xs of [] \<Rightarrow> [[x]] | y # ys \<Rightarrow> (x # y) # ys))"

definition withoutFragment :: "string \<Rightarrow> string" where
  "withoutFragment u = takeWhile (\<lambda>c. c \<noteq> CHR ''#'') u"

definition queryString :: "string \<Rightarrow> string" where
  "queryString u =
     (let v = withoutFragment u
      in if CHR ''?'' \<in> set v then tl (dropWhile (\<lambda>c. c \<noteq> CHR ''?'') v) else [])"

definition pairKeys :: "string \<Rightarrow> string list" where
  "pairKeys qs = map (takeWhile (\<lambda>c. c \<noteq> CHR ''='')) (filter (\<lambda>p. p \<noteq> []) (splitOn (CHR ''&'') qs))"

definition queryKeys :: "string \<Rightarrow> string list" where
  "queryKeys u = pairKeys (queryString u)"

text \<open>The value of a hexadecimal digit: it reads \<open>hexDigit\<close> back.\<close>

definition hexValue :: "char \<Rightarrow> nat" where
  "hexValue c = (if of_char c < (65::nat) then of_char c - 48 else of_char c - 55)"

text \<open>
  A URL starts with a scheme when it begins with a letter followed by letters, digits,
  \<open>+\<close>, \<open>-\<close> or \<open>.\<close>, and then a colon.
\<close>

definition isSchemeChar :: "char \<Rightarrow> bool" where
  "isSchemeChar c =
     (let n = (of_char c :: nat)
      in (65 \<le> n \<and> n \<le> 90) \<or> (97 \<le> n \<and> n \<le> 122) \<or> (48 \<le> n \<and> n \<le> 57)
         \<or> n = 43 \<or> n = 45 \<or> n = 46)"

definition isLetter :: "char \<Rightarrow> bool" where
  "isLetter c = (let n = (of_char c :: nat) in (65 \<le> n \<and> n \<le> 90) \<or> (97 \<le> n \<and> n \<le> 122))"

definition startsWithScheme :: "string \<Rightarrow> bool" where
  "startsWithScheme u =
     (case takeWhile (\<lambda>c. c \<noteq> CHR '':'') u of
        [] \<Rightarrow> False
      | c # cs \<Rightarrow> CHR '':'' \<in> set u \<and> isLetter c \<and> list_all isSchemeChar cs)"





text \<open>Whether a response interceptor has an \<open>onError\<close> hook.\<close>

definition hasOnError :: "'x ResponseInterceptor \<Rightarrow> bool" where
  "hasOnError ic = (rs_onError ic \<noteq> None)"

text \<open>
  Interceptors and the transport are code of the caller and of the platform. A function
  on the world keeps the object at an address when that object is still there, with the
  same content, after it has run; a client is framed for an address when each of its
  hooks and the transport keep the object there. \<open>holds a v w\<close>: the store of \<open>w\<close> has
  the content \<open>v\<close> at \<open>a\<close>. \<open>defaultsKept\<close>: after a call, the default headers the client's
  options refer to read as they did in the world \<open>w\<close> before it.
\<close>

definition keepsObject :: "addr \<Rightarrow> ('x world \<Rightarrow> 'r \<times> 'x world) \<Rightarrow> bool" where
  "keepsObject a f =
     (\<forall>w. a < length (heap w) \<longrightarrow>
          a < length (heap (snd (f w))) \<and> heap (snd (f w)) ! a = heap w ! a)"

definition holds :: "addr \<Rightarrow> hdrs \<Rightarrow> 'x world \<Rightarrow> bool" where
  "holds a v w = (a < length (heap w) \<and> heap w ! a = v)"

definition framed :: "addr \<Rightarrow> 'x platform \<Rightarrow> 'x HttpService \<Rightarrow> bool" where
  "framed a pf this =
     ((\<forall>ic \<in> set (requestInterceptors this).
          (\<forall>f c. rq_onRequest ic = Some f \<longrightarrow> keepsObject a (f c))
        \<and> (\<forall>g e. rq_onError ic = Some g \<longrightarrow> keepsObject a (g e)))
    \<and> (\<forall>ic \<in> set (responseInterceptors this).
          (\<forall>f r. rs_onResponse ic = Some f \<longrightarrow> keepsObject a (f r))
        \<and> (\<forall>g e. rs_onError ic = Some g \<longrightarrow> keepsObject a (g e)))
    \<and> (\<forall>u opts. keepsObject a (undici_request pf u opts)))"

definition defaultsKept :: "'x HttpService \<Rightarrow> 'x world \<Rightarrow> 'r \<times> 'x world \<times> event list \<Rightarrow> bool" where
  "defaultsKept this w out =
     (deref (fst (snd out)) (opt_headers (options this)) = deref w (opt_headers (options this)))"

section \<open>A client to run the model on\<close>

text \<open>
  The client of the repository's test file: base URL \<open>https://api.test.com\<close>, timeout
  5000, a transport that resolves with a given status and the JSON body
  \<open>{"id":1,"name":"Test"}\<close>. \<open>plainJSON\<close> is \<open>JSON.stringify\<close> on plain data (null,
  booleans, integers, strings, arrays and objects of these).
\<close>

fun decimal :: "nat \<Rightarrow> string" where
  "decimal n =
     (if n < 10 then [''0123456789'' ! n]
      else decimal (n div 10) @ [''0123456789'' ! (n mod 10)])"

declare decimal.simps [simp del]

definition quoteJSON :: "string \<Rightarrow> string" where
  "quoteJSON s =
     [CHR 0x22]
     @ concat (map (\<lambda>c. if c = CHR 0x22 \<or> c = CHR 0x5C then [CHR 0x5C, c] else [c]) s)
     @ [CHR 0x22]"

fun plainJSON :: "jsval \<Rightarrow> string" where
  "plainJSON (JBool b) = (if b then ''true'' else ''false'')"
| "plainJSON (JNum n) = (if n < 0 then ''-'' @ decimal (nat (- n)) else decimal (nat n))"
| "plainJSON (JStr s) = quoteJSON s"
| "plainJSON (JArr xs) = ''['' @ joinWith '','' (map plainJSON xs) @ '']''"
| "plainJSON (JObj ps) =
     ''{'' @ joinWith '','' (map (\<lambda>p. quoteJSON (fst p) @ '':'' @ plainJSON (snd p)) ps) @ ''}''"
| "plainJSON v = ''null''"

definition test_options :: "unit HttpModuleOptions" where
  "test_options =
     \<lparr>opt_baseURL = Some ''https://api.test.com'', opt_headers = None, opt_timeout = Some 5000,
      opt_agent = None, opt_connections = None, opt_pipelining = None,
      opt_keepAliveTimeout = None, opt_keepAliveMaxTimeout = None, opt_connectTimeout = None,
      opt_bodyTimeout = None, opt_headersTimeout = None, opt_interceptors = None\<rparr>"

definition test_service :: "unit HttpService" where
  "test_service = new_HttpService 0 test_options"

definition test_body :: BodyReadable where
  "test_body =
     \<lparr>body_json = Inr (JObj [(''id'', JNum 1), (''name'', JStr ''Test'')]),
      body_text = Inr ''{\"id\":1,\"name\":\"Test\"}'',
      body_arrayBuffer = Inr [],
      body_stream = 0\<rparr>"

definition test_platform :: "int \<Rightarrow> unit platform" where
  "test_platform code =
     \<lparr>undici_request = (\<lambda>u opts w. (Inr \<lparr>statusCode = code, headers = [], body = test_body\<rparr>, w)),
      JSON_stringify = plainJSON\<rparr>"

definition test_world :: "unit world" where
  "test_world = \<lparr>heap = [], ext = ()\<rparr>"

text \<open>
  A client with default headers, and a store holding the default headers object, a
  per-call headers object and the headers of the README's upload example.
\<close>

definition headers_service :: "unit HttpService" where
  "headers_service = new_HttpService 0 (test_options\<lparr>opt_headers := Some 0\<rparr>)"

definition headers_world :: "unit world" where
  "headers_world =
     \<lparr>heap = [[(''User-Agent'', ''NestJS-Undici-Client''), (''Accept'', ''text/plain'')],
              [(''Accept'', ''application/json''), (''Authorization'', ''Bearer token'')],
              [(''Content-Type'', ''application/octet-stream'')]],
      ext = ()\<rparr>"

text \<open>The test platform with any \<open>JSON.stringify\<close> in place of \<open>plainJSON\<close>.\<close>

definition stringify_platform :: "(jsval \<Rightarrow> string) \<Rightarrow> unit platform" where
  "stringify_platform js = (test_platform 200)\<lparr>JSON_stringify := js\<rparr>"

text \<open>
  Request interceptors \<open>A\<close>, \<open>B\<close>, \<open>C\<close>: \<open>A\<close> and \<open>C\<close> change the descriptor, \<open>B\<close>
  throws; each has an \<open>onError\<close> hook. \<open>icSilent\<close> has no hook at all.
\<close>

definition icA :: "unit RequestInterceptor" where
  "icA = \<lparr>rq_onRequest = Some (\<lambda>c w. (Inr (c\<lparr>cfg_timeout := Some 100\<rparr>), w)),
          rq_onError = Some (\<lambda>e w. (Inr (), w))\<rparr>"

definition icB :: "unit RequestInterceptor" where
  "icB = \<lparr>rq_onRequest = Some (\<lambda>c w. (Inl (Error ''B failed''), w)),
          rq_onError = Some (\<lambda>e w. (Inr (), w))\<rparr>"

definition icC :: "unit RequestInterceptor" where
  "icC = \<lparr>rq_onRequest = Some (\<lambda>c w. (Inr (c\<lparr>cfg_responseType := Some RT_text\<rparr>), w)),
          rq_onError = Some (\<lambda>e w. (Inr (), w))\<rparr>"

definition icSilent :: "unit RequestInterceptor" where
  "icSilent = \<lparr>rq_onRequest = None, rq_onError = None\<rparr>"

definition request_service :: "unit RequestInterceptor list \<Rightarrow> unit HttpService" where
  "request_service ics =
     new_HttpService 0
       (test_options\<lparr>opt_interceptors := Some \<lparr>io_request = Some ics, io_response = None\<rparr>\<rparr>)"

text \<open>
  Response interceptors: \<open>rsB\<close> throws in \<open>onResponse\<close>, \<open>rsQuiet\<close> has no \<open>onError\<close>
  hook, the \<open>onError\<close> hook of \<open>rsThrowing\<close> throws. \<open>failing_platform\<close> is a transport
  that rejects, as in the test "should handle request errors".
\<close>

definition rsA :: "unit ResponseInterceptor" where
  "rsA = \<lparr>rs_onResponse = Some (\<lambda>r w. (Inr (r\<lparr>res_headers := [(''x-seen'', [''A''])]\<rparr>), w)),
          rs_onError = Some (\<lambda>e w. (Inr (), w))\<rparr>"

definition rsB :: "unit ResponseInterceptor" where
  "rsB = \<lparr>rs_onResponse = Some (\<lambda>r w. (Inl (Error ''B failed''), w)),
          rs_onError = Some (\<lambda>e w. (Inr (), w))\<rparr>"

definition rsC :: "unit ResponseInterceptor" where
  "rsC = \<lparr>rs_onResponse = Some (\<lambda>r w. (Inr r, w)),
          rs_onError = Some (\<lambda>e w. (Inr (), w))\<rparr>"

definition rsQuiet :: "unit ResponseInterceptor" where
  "rsQuiet = \<lparr>rs_onResponse = Some (\<lambda>r w. (Inr r, w)), rs_onError = None\<rparr>"

definition rsThrowing :: "unit ResponseInterceptor" where
  "rsThrowing = \<lparr>rs_onResponse = None,
                 rs_onError = Some (\<lambda>e w. (Inl (Error ''hook failed''), w))\<rparr>"

definition response_service :: "unit ResponseInterceptor list \<Rightarrow> unit HttpService" where
  "response_service ics =
     new_HttpService 0
       (test_options\<lparr>opt_interceptors := Some \<lparr>io_request = None, io_response = Some ics\<rparr>\<rparr>)"

definition failing_platform :: "unit platform" where
  "failing_platform =
     \<lparr>undici_request = (\<lambda>u opts w. (Inl (Error ''Network error''), w)),
      JSON_stringify = plainJSON\<rparr>"

section \<open>Unfolding the model\<close>

lemmas service_defs =
  executeRequest_def applyRequestInterceptors_def buildUrl_def shouldPrependBaseUrl_def
  appendQueryParams_def mergeHeaders_def prepareRequestBody_def isJsonSerializable_def
  performRequest_def parseResponseData_def createHttpResponse_def getStatusText_def
  applyResponseInterceptors_def handleRequestError_def tryDispatch_def
  request_def get_def post_def put_def delete_def patch_def head_def withConfig_def
  emptyConfig_def new_HttpService_def initializeInterceptors_def deref_def alloc_def
  spread_def OK_STATUS_def OK_STATUS_TEXT_def ERROR_STATUS_TEXT_def
  DEFAULT_CONTENT_TYPE_def DEFAULT_RESPONSE_TYPE_def DEFAULT_METHOD_def

lemmas test_defs =
  test_options_def test_service_def test_body_def test_platform_def test_world_def

lemmas headers_defs = headers_service_def headers_world_def stringify_platform_def

lemmas abc_defs = icA_def icB_def icC_def icSilent_def request_service_def

lemmas response_defs =
  rsA_def rsB_def rsC_def rsQuiet_def rsThrowing_def response_service_def failing_platform_def

section \<open>One dispatch per call\<close>

lemma dispatches_append [simp]: "dispatches (xs @ ys) = dispatches xs @ dispatches ys"
  by (induction xs rule: dispatches.induct) simp_all

lemma applyRequestInterceptors_from_dispatches:
  "applyRequestInterceptors_from i ics c (w, lg) = (r, w', lg') \<Longrightarrow> dispatches lg' = dispatches lg"
  by (induction ics arbitrary: i c w lg)
     (auto split: option.splits prod.splits sum.splits)

lemma applyResponseInterceptors_from_dispatches:
  "applyResponseInterceptors_from i ics c (w, lg) = (r, w', lg') \<Longrightarrow> dispatches lg' = dispatches lg"
  by (induction ics arbitrary: i c w lg)
     (auto split: option.splits prod.splits sum.splits)

lemma handleRequestError_from_dispatches:
  "handleRequestError_from i ics e (w, lg) = (r, w', lg') \<Longrightarrow> dispatches lg' = dispatches lg"
  by (induction ics arbitrary: i w lg)
     (auto split: option.splits prod.splits sum.splits)

lemma tryDispatch_dispatches:
  "tryDispatch pf this u fc h b (w, lg) = (r, w', lg') \<Longrightarrow>
   \<exists>opts. dispatches lg' = dispatches lg @ [(u, opts, heap w ! h)]
     \<and> uo_body opts = b \<and> uo_headers opts = h
     \<and> uo_method opts = (case cfg_method fc of Some m \<Rightarrow> m | None \<Rightarrow> DEFAULT_METHOD)"
  by (auto simp: tryDispatch_def performRequest_def applyResponseInterceptors_def Let_def
      split: prod.splits sum.splits dest!: applyResponseInterceptors_from_dispatches)

lemma executeRequest_dispatches:
  assumes "applyRequestInterceptors this config (w, lg) = (Inr fc, w1, lg1)"
    and "executeRequest pf this config (w, lg) = (r, w', lg')"
    and "mergeHeaders this fc w1 = (h, w2)"
    and "prepareRequestBody pf fc h w2 = (b, w3)"
  shows "\<exists>opts. dispatches lg' = dispatches lg @ [(buildUrl this fc, opts, heap w3 ! h)]
     \<and> uo_body opts = b \<and> uo_headers opts = h
     \<and> uo_method opts = (case cfg_method fc of Some m \<Rightarrow> m | None \<Rightarrow> DEFAULT_METHOD)"
proof -
  have d1: "dispatches lg1 = dispatches lg"
    using assms(1) by (auto simp: applyRequestInterceptors_def dest: applyRequestInterceptors_from_dispatches)
  obtain r2 w4 lg4 where t: "tryDispatch pf this (buildUrl this fc) fc h b (w3, lg1) = (r2, w4, lg4)"
    by (metis prod_cases3)
  from tryDispatch_dispatches [OF t] obtain opts where
    o: "dispatches lg4 = dispatches lg1 @ [(buildUrl this fc, opts, heap w3 ! h)]"
      "uo_body opts = b" "uo_headers opts = h"
      "uo_method opts = (case cfg_method fc of Some m \<Rightarrow> m | None \<Rightarrow> DEFAULT_METHOD)"
    by blast
  have "dispatches lg' = dispatches lg4"
    using assms t
    by (auto simp: executeRequest_def handleRequestError_def
        split: prod.splits sum.splits dest: handleRequestError_from_dispatches)
  with o d1 show ?thesis by auto
qed


section \<open>The query string\<close>

lemma splitOn_nonempty [simp]: "splitOn c s \<noteq> []"
  by (induction s) (auto split: list.splits)

lemma splitOn_absent: "c \<notin> set a \<Longrightarrow> splitOn c a = [a]"
  by (induction a) auto

lemma splitOn_append: "splitOn c (a @ c # b) = splitOn c a @ splitOn c b"
proof (induction a)
  case Nil
  then show ?case by simp
next
  case (Cons x a)
  then show ?case
    by (cases "splitOn c a") auto
qed

lemma splitOn_joinWith:
  "xs \<noteq> [] \<Longrightarrow> \<forall>x \<in> set xs. c \<notin> set x \<Longrightarrow> splitOn c (joinWith [c] xs) = xs"
proof (induction "[c]" xs rule: joinWith.induct)
  case 1
  then show ?case by simp
next
  case (2 x)
  then show ?case by (simp add: splitOn_absent)
next
  case (3 x y ys)
  then show ?case by (simp add: splitOn_append splitOn_absent)
qed

lemma nibbles: "list_all (\<lambda>n. hexValue (hexDigit n) = n) [0..<16]"
  by code_simp

lemma hexValue_hexDigit: "n < 16 \<Longrightarrow> hexValue (hexDigit n) = n"
  using nibbles by (simp add: list_all_iff del: upt_rec_numeral)

lemma nibbles_reserved: "list_all (\<lambda>n. hexDigit n \<notin> set ''&=?%+#'') [0..<16]"
  by code_simp

lemma hexDigit_reserved:
  "n < 16 \<Longrightarrow> hexDigit n \<noteq> CHR ''&'' \<and> hexDigit n \<noteq> CHR ''='' \<and> hexDigit n \<noteq> CHR ''?''
     \<and> hexDigit n \<noteq> CHR ''#''"
  using nibbles_reserved by (auto simp: list_all_iff simp del: upt_rec_numeral)

lemma of_char_nibbles: "(of_char c :: nat) div 16 < 16" "(of_char c :: nat) mod 16 < 16"
proof -
  have "(of_char c :: nat) < 256" by simp
  then show "(of_char c :: nat) div 16 < 16" by arith
  show "(of_char c :: nat) mod 16 < 16" by simp
qed

lemma percentEncodeByte_reserved:
  "CHR ''&'' \<notin> set (percentEncodeByte c)" "CHR ''='' \<notin> set (percentEncodeByte c)"
  "CHR ''?'' \<notin> set (percentEncodeByte c)" "CHR ''#'' \<notin> set (percentEncodeByte c)"
  using hexDigit_reserved [OF of_char_nibbles(1), of c] hexDigit_reserved [OF of_char_nibbles(2), of c]
  by (auto simp: percentEncodeByte_def isUrlencodedSafe_def Let_def)

lemma urlencode_reserved:
  "CHR ''&'' \<notin> set (urlencode s)" "CHR ''='' \<notin> set (urlencode s)" "CHR ''?'' \<notin> set (urlencode s)"
  "CHR ''#'' \<notin> set (urlencode s)"
  by (auto simp: urlencode_def percentEncodeByte_reserved)

lemma hexDigit_inj: "a < 16 \<Longrightarrow> b < 16 \<Longrightarrow> hexDigit a = hexDigit b \<Longrightarrow> a = b"
  by (metis hexValue_hexDigit)

lemma unsafe_marks: "\<not> isUrlencodedSafe (CHR ''%'')" "\<not> isUrlencodedSafe (CHR ''+'')"
  by (simp_all add: isUrlencodedSafe_def)

lemma of_char_nibbles_eq:
  assumes "(of_char c :: nat) div 16 = of_char d div 16" "(of_char c :: nat) mod 16 = of_char d mod 16"
  shows "c = d"
proof -
  have "(of_char c :: nat) = of_char d"
    using assms by (metis div_mult_mod_eq)
  then show ?thesis by simp
qed

lemma percentEncodeByte_cases:
  "(isUrlencodedSafe c \<and> percentEncodeByte c = [c])
   \<or> (\<not> isUrlencodedSafe c \<and> c = CHR '' '' \<and> percentEncodeByte c = ''+'')
   \<or> (\<not> isUrlencodedSafe c \<and> c \<noteq> CHR '' '' \<and>
       percentEncodeByte c = [CHR ''%'', hexDigit (of_char c div 16), hexDigit (of_char c mod 16)])"
  by (simp add: percentEncodeByte_def)

lemma percentEncodeByte_prefix_inj:
  assumes "percentEncodeByte c @ r = percentEncodeByte d @ r'"
  shows "c = d \<and> r = r'"
proof -
  consider (s) "isUrlencodedSafe c" "percentEncodeByte c = [c]"
    | (p) "\<not> isUrlencodedSafe c" "c = CHR '' ''" "percentEncodeByte c = ''+''"
    | (h) "\<not> isUrlencodedSafe c" "c \<noteq> CHR '' ''"
        "percentEncodeByte c = [CHR ''%'', hexDigit (of_char c div 16), hexDigit (of_char c mod 16)]"
    using percentEncodeByte_cases [of c] by blast
  then show ?thesis
  proof cases
    case s
    with assms percentEncodeByte_cases [of d] unsafe_marks show ?thesis by auto
  next
    case p
    with assms percentEncodeByte_cases [of d] unsafe_marks show ?thesis by auto
  next
    case h
    from percentEncodeByte_cases [of d] show ?thesis
    proof (elim disjE conjE)
      assume "isUrlencodedSafe d" "percentEncodeByte d = [d]"
      with assms h unsafe_marks show ?thesis by auto
    next
      assume "d = CHR '' ''" "percentEncodeByte d = ''+''"
      with assms h show ?thesis by auto
    next
      assume d: "percentEncodeByte d = [CHR ''%'', hexDigit (of_char d div 16), hexDigit (of_char d mod 16)]"
      with assms h have e: "hexDigit (of_char c div 16) = hexDigit (of_char d div 16)"
        "hexDigit (of_char c mod 16) = hexDigit (of_char d mod 16)" "r = r'"
        by auto
      have "(of_char c :: nat) div 16 = of_char d div 16"
        using e(1) hexDigit_inj of_char_nibbles(1) by blast
      moreover have "(of_char c :: nat) mod 16 = of_char d mod 16"
        using e(2) hexDigit_inj of_char_nibbles(2) by blast
      ultimately show ?thesis using e(3) of_char_nibbles_eq by blast
    qed
  qed
qed

lemma percentEncodeByte_nonempty: "percentEncodeByte c \<noteq> []"
  using percentEncodeByte_cases [of c] by auto

lemma urlencode_inj: "urlencode s = urlencode t \<Longrightarrow> s = t"
proof (induction s arbitrary: t)
  case Nil
  then show ?case
    by (cases t) (auto simp: urlencode_def percentEncodeByte_nonempty)
next
  case (Cons c s)
  show ?case
  proof (cases t)
    case Nil
    with Cons.prems show ?thesis
      by (auto simp: urlencode_def percentEncodeByte_nonempty)
  next
    case (Cons d t')
    with Cons.prems have "percentEncodeByte c @ urlencode s = percentEncodeByte d @ urlencode t'"
      by (simp add: urlencode_def)
    then have "c = d \<and> urlencode s = urlencode t'"
      by (rule percentEncodeByte_prefix_inj)
    with Cons.IH Cons show ?thesis by auto
  qed
qed

lemma pairKeys_append: "pairKeys (a @ CHR ''&'' # b) = pairKeys a @ pairKeys b"
  by (simp add: pairKeys_def splitOn_append)

lemma pairKeys_URLSearchParams:
  "pairKeys (URLSearchParams_toString q) = map (urlencode \<circ> fst) q"
proof (cases "q = []")
  case True
  then show ?thesis by (simp add: pairKeys_def URLSearchParams_toString_def)
next
  case False
  let ?ps = "map (\<lambda>(k, v). urlencode k @ ''='' @ urlencode v) q"
  have "splitOn (CHR ''&'') (joinWith ''&'' ?ps) = ?ps"
    using False by (intro splitOn_joinWith) (auto simp: urlencode_reserved)
  moreover have "filter (\<lambda>p. p \<noteq> []) ?ps = ?ps"
    by (auto intro!: filter_True)
  moreover have "map (takeWhile (\<lambda>c. c \<noteq> CHR ''='')) ?ps = map (urlencode \<circ> fst) q"
    by (auto simp: takeWhile_tail urlencode_reserved)
  ultimately show ?thesis
    by (simp add: pairKeys_def URLSearchParams_toString_def)
qed

lemma set_joinWith: "set (joinWith sep xs) \<subseteq> set sep \<union> (\<Union>x \<in> set xs. set x)"
  by (induction sep xs rule: joinWith.induct) auto

lemma URLSearchParams_no_fragment: "CHR ''#'' \<notin> set (URLSearchParams_toString q)"
proof
  assume "CHR ''#'' \<in> set (URLSearchParams_toString q)"
  with set_joinWith [of "''&''" "map (\<lambda>(k, v). urlencode k @ ''='' @ urlencode v) q"]
  show False
    by (auto simp: URLSearchParams_toString_def urlencode_reserved)
qed

lemma withoutFragment_none: "CHR ''#'' \<notin> set u \<Longrightarrow> withoutFragment u = u"
  by (auto simp: withoutFragment_def takeWhile_eq_all_conv)

lemma withoutFragment_some: "CHR ''#'' \<in> set u \<Longrightarrow> withoutFragment (u @ v) = withoutFragment u"
  by (simp add: withoutFragment_def)

lemma queryString_fresh:
  assumes "CHR ''?'' \<notin> set u" "CHR ''#'' \<notin> set u" "CHR ''#'' \<notin> set qs"
  shows "queryString (u @ ''?'' @ qs) = qs"
proof -
  have "withoutFragment (u @ ''?'' @ qs) = u @ ''?'' @ qs"
    using assms by (intro withoutFragment_none) simp
  moreover have "dropWhile (\<lambda>c. c \<noteq> CHR ''?'') u = []"
    using assms(1) by (auto simp: dropWhile_eq_Nil_conv)
  ultimately show ?thesis
    by (simp add: queryString_def dropWhile_append)
qed

lemma queryString_more:
  assumes "CHR ''?'' \<in> set u" "CHR ''#'' \<notin> set u" "CHR ''#'' \<notin> set qs"
  shows "queryString (u @ ''&'' @ qs) = queryString u @ ''&'' @ qs"
proof -
  have "withoutFragment (u @ ''&'' @ qs) = u @ ''&'' @ qs"
    using assms by (intro withoutFragment_none) simp
  moreover have "withoutFragment u = u"
    using assms(2) by (rule withoutFragment_none)
  moreover have "dropWhile (\<lambda>c. c \<noteq> CHR ''?'') u \<noteq> []"
    using assms(1) by simp
  ultimately show ?thesis
    using assms(1) by (simp add: queryString_def dropWhile_append1)
qed

lemma queryString_fragment: "CHR ''#'' \<in> set u \<Longrightarrow> queryString (u @ v) = queryString u"
  by (simp add: queryString_def withoutFragment_some)

lemma queryKeys_no_query: "CHR ''?'' \<notin> set u \<Longrightarrow> queryKeys u = []"
proof -
  assume "CHR ''?'' \<notin> set u"
  then have "CHR ''?'' \<notin> set (withoutFragment u)"
    by (auto simp: withoutFragment_def dest: set_takeWhileD)
  then show ?thesis
    by (simp add: queryKeys_def queryString_def pairKeys_def)
qed

lemma queryKeys_appendQueryParams:
  assumes "CHR ''#'' \<notin> set u"
  shows "queryKeys (appendQueryParams u (Some q)) = queryKeys u @ map (urlencode \<circ> fst) q"
proof (cases "CHR ''?'' \<in> set u")
  case True
  then show ?thesis
    using queryString_more [OF True assms URLSearchParams_no_fragment, of q]
    by (simp add: appendQueryParams_def queryKeys_def pairKeys_append pairKeys_URLSearchParams)
next
  case False
  then show ?thesis
    using queryString_fresh [OF False assms URLSearchParams_no_fragment, of q]
      queryKeys_no_query [OF False]
    by (simp add: appendQueryParams_def queryKeys_def pairKeys_URLSearchParams)
qed

lemma queryKeys_in_fragment:
  "CHR ''#'' \<in> set u \<Longrightarrow> queryKeys (appendQueryParams u (Some q)) = queryKeys u"
  by (simp add: appendQueryParams_def queryKeys_def queryString_fragment)

lemma distinct_encoded_keys: "distinct (map fst q) \<Longrightarrow> distinct (map (urlencode \<circ> fst) q)"
  by (simp add: distinct_map inj_on_def urlencode_inj flip: map_map)

section \<open>Status text\<close>

lemma applyResponseInterceptors_from_no_hooks:
  "\<forall>ic \<in> set ics. rs_onResponse ic = None \<Longrightarrow>
   applyResponseInterceptors_from i ics response s = (Inr response, s)"
  by (induction ics arbitrary: i) (cases s; simp)+

text \<open>
  C9. The envelope built from a transport response has the status text "OK" exactly when
  the status code is 200 and the one text "Error" for every other code; 404 gives
  "Error", not "Not Found". When no response interceptor replaces the envelope, this is
  the envelope the call returns.
\<close>

theorem statusText_policy:
  "res_statusText (createHttpResponse response d) =
     (if statusCode response = 200 then ''OK'' else ''Error'')
   \<and> (res_statusText (createHttpResponse response d) = ''OK'' \<longleftrightarrow> statusCode response = 200)
   \<and> (statusCode response = 404 \<longrightarrow>
        res_statusText (createHttpResponse response d) = ''Error''
        \<and> res_statusText (createHttpResponse response d) \<noteq> ''Not Found'')
   \<and> ((\<forall>ic \<in> set (responseInterceptors this). rs_onResponse ic = None)
        \<and> executeRequest pf this config s = (Inr r, s') \<longrightarrow>
        res_statusText r = (if res_status r = 200 then ''OK'' else ''Error''))"
proof -
  have a: "res_statusText (createHttpResponse response d) =
     (if statusCode response = 200 then ''OK'' else ''Error'')"
    by (simp add: createHttpResponse_def getStatusText_def OK_STATUS_def OK_STATUS_TEXT_def
        ERROR_STATUS_TEXT_def)
  have b: "res_statusText r = (if res_status r = 200 then ''OK'' else ''Error'')"
    if h: "\<forall>ic \<in> set (responseInterceptors this). rs_onResponse ic = None"
      and ex: "executeRequest pf this config s = (Inr r, s')"
  proof -
    from ex obtain response d' where "r = createHttpResponse response d'"
      by (auto simp: executeRequest_def tryDispatch_def applyResponseInterceptors_def
          applyResponseInterceptors_from_no_hooks [OF h]
          split: prod.splits sum.splits)
    then show ?thesis
      by (simp add: createHttpResponse_def getStatusText_def OK_STATUS_def OK_STATUS_TEXT_def
        ERROR_STATUS_TEXT_def)
  qed
  show ?thesis using a b by auto
qed

theorem statusText_policy_witness:
  "responseInterceptors test_service = []
   \<and> get (test_platform 404) test_service ''/users/1'' None (test_world, []) =
       (Inr \<lparr>res_data = JObj [(''id'', JNum 1), (''name'', JStr ''Test'')], res_status = 404,
              res_statusText = ''Error'', res_headers = []\<rparr>,
        \<lparr>heap = [[]], ext = ()\<rparr>,
        [Dispatch ''https://api.test.com/users/1''
           \<lparr>uo_method = GET, uo_headers = 0, uo_body = JUndefined, uo_dispatcher = 0,
            uo_bodyTimeout = Some 5000\<rparr> []])
   \<and> res_statusText (createHttpResponse \<lparr>statusCode = 404, headers = [], body = test_body\<rparr> JNull)
       = ''Error''
   \<and> res_statusText (createHttpResponse \<lparr>statusCode = 200, headers = [], body = test_body\<rparr> JNull)
       = ''OK''"
  using statusText_policy [of "\<lparr>statusCode = 404, headers = [], body = test_body\<rparr>" JNull
      test_service "test_platform 404"
      "emptyConfig\<lparr>cfg_url := Some ''/users/1'', cfg_method := Some GET\<rparr>" "(test_world, [])"
      "\<lparr>res_data = JObj [(''id'', JNum 1), (''name'', JStr ''Test'')], res_status = 404,
        res_statusText = ''Error'', res_headers = []\<rparr>"
      "(\<lparr>heap = [[]], ext = ()\<rparr>,
        [Dispatch ''https://api.test.com/users/1''
           \<lparr>uo_method = GET, uo_headers = 0, uo_body = JUndefined, uo_dispatcher = 0,
            uo_bodyTimeout = Some 5000\<rparr> []])"]
  by (simp add: service_defs test_defs)

section \<open>URL resolution\<close>

lemma buildUrl_resolved:
  "buildUrl this fc =
     appendQueryParams
       (let P = (case cfg_url fc of Some u \<Rightarrow> u | None \<Rightarrow> [])
        in case opt_baseURL (options this) of
             None \<Rightarrow> P
           | Some B \<Rightarrow> if prefix ''http'' P then P else B @ P)
       (cfg_params fc)"
  by (auto simp: buildUrl_def shouldPrependBaseUrl_def Let_def split: option.splits)

lemma executeRequest_url:
  assumes "applyRequestInterceptors this config (w, lg) = (Inr fc, w1, lg1)"
    and "executeRequest pf this config (w, lg) = (r, w', lg')"
  shows "map fst (dispatches lg') = map fst (dispatches lg) @ [buildUrl this fc]"
proof -
  obtain h w2 where m: "mergeHeaders this fc w1 = (h, w2)" by (cases "mergeHeaders this fc w1")
  obtain b w3 where p: "prepareRequestBody pf fc h w2 = (b, w3)"
    by (cases "prepareRequestBody pf fc h w2")
  from executeRequest_dispatches [OF assms m p] show ?thesis by auto
qed

text \<open>
  C7, as amended. Let \<open>P\<close> be the path of the request descriptor the request interceptors
  return and \<open>B\<close> the configured base URL. When \<open>P\<close> does not start with the four
  characters \<open>http\<close>, the URL handed to the transport is \<open>B\<close> followed by \<open>P\<close>, nothing in
  between; when \<open>P\<close> starts with \<open>http\<close>, it is \<open>P\<close> as it stands. In both cases this is
  the URL before the query string is appended, and the whole URL when there are no query
  parameters. The test is on the prefix \<open>http\<close>, not on a scheme.
\<close>

theorem dispatched_url_resolution:
  assumes phase: "applyRequestInterceptors this config (w, lg) = (Inr fc, w1, lg1)"
    and call: "executeRequest pf this config (w, lg) = (r, w', lg')"
    and path: "P = (case cfg_url fc of Some u \<Rightarrow> u | None \<Rightarrow> [])"
    and base: "opt_baseURL (options this) = Some B"
    and resolved: "U = (if prefix ''http'' P then P else B @ P)"
  shows "map fst (dispatches lg') = map fst (dispatches lg) @ [appendQueryParams U (cfg_params fc)]
       \<and> (cfg_params fc = None \<longrightarrow> map fst (dispatches lg') = map fst (dispatches lg) @ [U])"
proof -
  have "buildUrl this fc = appendQueryParams U (cfg_params fc)"
    using path base resolved by (simp add: buildUrl_resolved Let_def)
  with executeRequest_url [OF phase call] show ?thesis
    by (simp add: appendQueryParams_def)
qed

theorem dispatched_url_resolution_witness:
  "\<not> prefix ''http'' ''/users/1''
   \<and> map fst (dispatches (snd (snd (get (test_platform 200) test_service ''/users/1'' None
                                     (test_world, []))))) = [''https://api.test.com/users/1'']
   \<and> prefix ''http'' ''http://other.test.com/x''
   \<and> map fst (dispatches (snd (snd (get (test_platform 200) test_service ''http://other.test.com/x''
                                     None (test_world, []))))) = [''http://other.test.com/x'']"
proof -
  let ?rel = "emptyConfig\<lparr>cfg_url := Some ''/users/1'', cfg_method := Some GET\<rparr>"
  let ?abs = "emptyConfig\<lparr>cfg_url := Some ''http://other.test.com/x'', cfg_method := Some GET\<rparr>"
  have base: "opt_baseURL (options test_service) = Some ''https://api.test.com''"
    by (simp add: service_defs test_defs)
  have p1: "applyRequestInterceptors test_service ?rel (test_world, []) = (Inr ?rel, test_world, [])"
    by (simp add: service_defs test_defs)
  have p2: "applyRequestInterceptors test_service ?abs (test_world, []) = (Inr ?abs, test_world, [])"
    by (simp add: service_defs test_defs)
  obtain r1 w1 l1 where c1: "executeRequest (test_platform 200) test_service ?rel (test_world, []) = (r1, w1, l1)"
    by (metis prod_cases3)
  obtain r2 w2 l2 where c2: "executeRequest (test_platform 200) test_service ?abs (test_world, []) = (r2, w2, l2)"
    by (metis prod_cases3)
  have "map fst (dispatches l1) = [''https://api.test.com/users/1'']"
    using dispatched_url_resolution [OF p1 c1 refl base refl]
    by (simp add: emptyConfig_def appendQueryParams_def)
  moreover have "map fst (dispatches l2) = [''http://other.test.com/x'']"
    using dispatched_url_resolution [OF p2 c2 refl base refl]
    by (simp add: emptyConfig_def appendQueryParams_def)
  ultimately show ?thesis
    using c1 c2 by (simp add: get_def request_def withConfig_def)
qed

text \<open>
  The claim as stated fails both ways: \<open>httpbin/get\<close> starts with no scheme and is
  dispatched as it stands, without the base URL; \<open>ftp://files.test.com/a\<close> starts with
  a scheme and is dispatched behind the base URL.
\<close>

theorem scheme_prefix_counterexample:
  "\<not> startsWithScheme ''httpbin/get''
   \<and> map fst (dispatches (snd (snd (get (test_platform 200) test_service ''httpbin/get'' None
                                     (test_world, []))))) = [''httpbin/get'']
   \<and> ''httpbin/get'' \<noteq> ''https://api.test.com'' @ ''httpbin/get''
   \<and> startsWithScheme ''ftp://files.test.com/a''
   \<and> map fst (dispatches (snd (snd (get (test_platform 200) test_service ''ftp://files.test.com/a''
                                     None (test_world, []))))) =
       [''https://api.test.com'' @ ''ftp://files.test.com/a'']
   \<and> ''https://api.test.com'' @ ''ftp://files.test.com/a'' \<noteq> ''ftp://files.test.com/a''"
  by (simp add: service_defs test_defs startsWithScheme_def isLetter_def isSchemeChar_def)

section \<open>Query parameters\<close>

lemma count_list_distinct: "distinct xs \<Longrightarrow> x \<in> set xs \<Longrightarrow> count_list xs x = 1"
  by (induction xs) auto

text \<open>
  C8, as amended. With query parameters \<open>Q\<close>, the URL handed to the transport is the
  resolved URL \<open>U\<close>, then \<open>?\<close> when \<open>U\<close> contains none and \<open>&\<close> otherwise, then the
  urlencoded serialization of \<open>Q\<close>. When \<open>U\<close> has no fragment, the keys of its query
  string are those \<open>U\<close> already had, followed by the encoded keys of \<open>Q\<close>, one entry each;
  so every key of \<open>Q\<close> appears exactly once when \<open>U\<close> has neither a query component nor
  a fragment of its own. When \<open>U\<close> has a fragment, the serialization lands in the
  fragment and the query string has the keys of \<open>U\<close> only.
\<close>

theorem dispatched_query_string:
  assumes phase: "applyRequestInterceptors this config (w, lg) = (Inr fc, w1, lg1)"
    and call: "executeRequest pf this config (w, lg) = (r, w', lg')"
    and params: "cfg_params fc = Some Q"
    and resolved: "U = buildUrl this (fc\<lparr>cfg_params := None\<rparr>)"
    and url: "D = U @ (if CHR ''?'' \<in> set U then ''&'' else ''?'') @ URLSearchParams_toString Q"
  shows "map fst (dispatches lg') = map fst (dispatches lg) @ [D]
       \<and> (CHR ''#'' \<notin> set U \<longrightarrow> queryKeys D = queryKeys U @ map (urlencode \<circ> fst) Q)
       \<and> (CHR ''#'' \<in> set U \<longrightarrow> queryKeys D = queryKeys U)
       \<and> (distinct (map fst Q) \<and> CHR ''?'' \<notin> set U \<and> CHR ''#'' \<notin> set U \<longrightarrow>
            (\<forall>k \<in> set (map fst Q). count_list (queryKeys D) (urlencode k) = 1))"
proof -
  have b: "buildUrl this fc = appendQueryParams U (Some Q)"
    using params resolved by (simp add: buildUrl_def appendQueryParams_def Let_def)
  have d: "appendQueryParams U (Some Q) = D"
    using url by (simp add: appendQueryParams_def)
  have k: "queryKeys D = queryKeys U @ map (urlencode \<circ> fst) Q" if "CHR ''#'' \<notin> set U"
    using queryKeys_appendQueryParams [OF that, of Q] d by simp
  have f: "queryKeys D = queryKeys U" if "CHR ''#'' \<in> set U"
    using queryKeys_in_fragment [OF that, of Q] d by simp
  have c: "count_list (queryKeys D) (urlencode k) = 1"
    if "distinct (map fst Q)" "CHR ''?'' \<notin> set U" "CHR ''#'' \<notin> set U" "k \<in> set (map fst Q)" for k
  proof -
    from k [OF that(3)] queryKeys_no_query [OF that(2)]
    have "queryKeys D = map (urlencode \<circ> fst) Q" by simp
    moreover have "urlencode k \<in> set (map (urlencode \<circ> fst) Q)"
      using that(4) by auto
    ultimately show ?thesis
      using distinct_encoded_keys [OF that(1)] by (simp add: count_list_distinct)
  qed
  show ?thesis
    using executeRequest_url [OF phase call] b d k f c by auto
qed

theorem dispatched_query_string_witness:
  "map fst (dispatches (snd (snd (get (test_platform 200) test_service ''/users''
        (Some (emptyConfig\<lparr>cfg_params := Some [(''page'', ''1''), (''limit'', ''10'')]\<rparr>))
        (test_world, []))))) = [''https://api.test.com/users?page=1&limit=10'']
   \<and> queryKeys ''https://api.test.com/users?page=1&limit=10'' = [''page'', ''limit'']
   \<and> count_list (queryKeys ''https://api.test.com/users?page=1&limit=10'') ''page'' = 1
   \<and> count_list (queryKeys ''https://api.test.com/users?page=1&limit=10'') ''limit'' = 1"
proof -
  let ?q = "[(''page'', ''1''), (''limit'', ''10'')]"
  let ?cfg = "emptyConfig\<lparr>cfg_params := Some ?q, cfg_url := Some ''/users'', cfg_method := Some GET\<rparr>"
  have p: "applyRequestInterceptors test_service ?cfg (test_world, []) = (Inr ?cfg, test_world, [])"
    by (simp add: service_defs test_defs)
  obtain r w l where c: "executeRequest (test_platform 200) test_service ?cfg (test_world, []) = (r, w, l)"
    by (metis prod_cases3)
  have q: "cfg_params ?cfg = Some ?q" by simp
  have u: "''https://api.test.com/users'' = buildUrl test_service (?cfg\<lparr>cfg_params := None\<rparr>)"
    by (simp add: service_defs test_defs)
  have s: "URLSearchParams_toString ?q = ''page=1&limit=10''"
    by (simp add: URLSearchParams_toString_def urlencode_def percentEncodeByte_def isUrlencodedSafe_def)
  have e: "urlencode ''page'' = ''page''" "urlencode ''limit'' = ''limit''"
    by (simp_all add: urlencode_def percentEncodeByte_def isUrlencodedSafe_def)
  have k: "queryKeys ''https://api.test.com/users'' = []"
    by (simp add: queryKeys_def queryString_def withoutFragment_def pairKeys_def)
  from dispatched_query_string [OF p c q u refl] show ?thesis
    using c by (simp add: s e k get_def request_def withConfig_def)
qed

text \<open>
  The claim as stated fails when the path carries a query of its own: with the path
  \<open>/users?page=2\<close> and the parameters \<open>{page: 1}\<close> the key \<open>page\<close> appears twice. It
  also fails when the path carries a fragment: with \<open>/users#top\<close> the serialization
  follows the \<open>#\<close>, and the key appears in no query string at all.
\<close>

theorem query_key_count_counterexample:
  "map fst (dispatches (snd (snd (get (test_platform 200) test_service ''/users?page=2''
        (Some (emptyConfig\<lparr>cfg_params := Some [(''page'', ''1'')]\<rparr>))
        (test_world, []))))) = [''https://api.test.com/users?page=2&page=1'']
   \<and> queryKeys ''https://api.test.com/users?page=2&page=1'' = [''page'', ''page'']
   \<and> count_list (queryKeys ''https://api.test.com/users?page=2&page=1'') ''page'' = 2
   \<and> map fst (dispatches (snd (snd (get (test_platform 200) test_service ''/users#top''
        (Some (emptyConfig\<lparr>cfg_params := Some [(''page'', ''1'')]\<rparr>))
        (test_world, []))))) = [''https://api.test.com/users#top?page=1'']
   \<and> queryKeys ''https://api.test.com/users#top?page=1'' = []
   \<and> count_list (queryKeys ''https://api.test.com/users#top?page=1'') ''page'' = 0"
  by (simp add: service_defs test_defs URLSearchParams_toString_def urlencode_def
      percentEncodeByte_def isUrlencodedSafe_def queryKeys_def queryString_def
      withoutFragment_def pairKeys_def)

section \<open>Headers and body\<close>

lemma map_of_spread: "map_of (spread src obj) = map_of obj ++ map_of (rev src)"
proof (induction src arbitrary: obj)
  case Nil
  then show ?case by (simp add: spread_def)
next
  case (Cons p src)
  obtain k v where p: "p = (k, v)" by (cases p)
  have "map_of (spread (p # src) obj) = map_of (spread src (AList.update k v obj))"
    by (simp add: spread_def p)
  also have "\<dots> = (map_of obj)(k \<mapsto> v) ++ map_of (rev src)"
    by (simp only: Cons.IH update_conv')
  also have "\<dots> = map_of obj ++ map_of (rev (p # src))"
    by (simp add: p map_add_upd_left fun_eq_iff map_add_def split: option.splits)
  finally show ?case .
qed

lemma map_of_rev_distinct: "distinct (map fst xs) \<Longrightarrow> map_of (rev xs) = map_of xs"
proof (induction xs)
  case Nil
  then show ?case by simp
next
  case (Cons p xs)
  obtain k v where p: "p = (k, v)" by (cases p)
  from Cons.prems p have "k \<notin> fst ` set xs" by simp
  then have "map_of xs k = None" by (simp add: map_of_eq_None_iff)
  with Cons show ?case
    by (auto simp: p fun_eq_iff map_add_def split: option.splits)
qed

lemma map_of_merged:
  "distinct (map fst D) \<Longrightarrow> distinct (map fst C) \<Longrightarrow>
   map_of (spread C (spread D [])) = map_of D ++ map_of C"
  by (simp add: map_of_spread map_of_rev_distinct)

lemma map_of_merged_absent:
  "k \<notin> fst ` set D \<Longrightarrow> k \<notin> fst ` set C \<Longrightarrow> map_of (spread C (spread D [])) k = None"
  by (simp add: map_of_spread map_add_def map_of_eq_None_iff split: option.splits)

lemma prepared:
  assumes m: "mergeHeaders this fc w1 = (h, w2)"
    and p: "prepareRequestBody pf fc h w2 = (b, w3)"
    and merged: "M = spread (deref w1 (cfg_headers fc)) (spread (deref w1 (opt_headers (options this))) [])"
  shows "h = length (heap w1)"
    and "b = (if \<not> truthy (cfg_data fc) then JUndefined
              else if isJsonSerializable (cfg_data fc) then JStr (JSON_stringify pf (cfg_data fc))
              else cfg_data fc)"
    and "heap w3 ! h =
           (if truthy (cfg_data fc) \<and> isJsonSerializable (cfg_data fc)
            then AList.update ''Content-Type''
                   (case map_of M ''Content-Type'' of
                      Some v \<Rightarrow> if v \<noteq> [] then v else DEFAULT_CONTENT_TYPE
                    | None \<Rightarrow> DEFAULT_CONTENT_TYPE) M
            else M)"
  using m p merged
  by (auto simp: mergeHeaders_def alloc_def prepareRequestBody_def Let_def split: if_splits)

text \<open>
  C4. A stream or a byte buffer is an object to \<open>typeof\<close> and is no \<open>FormData\<close>, so
  \<open>prepareRequestBody\<close> serializes it like a structured value: the body handed to the
  transport is the JSON text of the payload, not the payload. With the README's upload
  example (a stream, \<open>Content-Type: application/octet-stream\<close>) the caller's content
  type stays and the body is the text; with a buffer and no content type,
  \<open>Content-Type: application/json\<close> is added as well. This holds for any
  \<open>JSON.stringify\<close>.
\<close>

theorem stream_payload_is_stringified:
  "map (\<lambda>(u, opts, hs). (uo_body opts, hs))
     (dispatches (snd (snd (post (stringify_platform js) headers_service ''/upload'' (JStream 7)
                              (Some (emptyConfig\<lparr>cfg_headers := Some 2\<rparr>)) (headers_world, [])))))
     = [(JStr (js (JStream 7)),
         [(''User-Agent'', ''NestJS-Undici-Client''), (''Accept'', ''text/plain''),
          (''Content-Type'', ''application/octet-stream'')])]
   \<and> map (\<lambda>(u, opts, hs). (uo_body opts, hs))
     (dispatches (snd (snd (post (stringify_platform js) test_service ''/upload'' (JBuffer [1, 2, 3])
                              None (test_world, [])))))
     = [(JStr (js (JBuffer [1, 2, 3])), [(''Content-Type'', ''application/json'')])]
   \<and> JStr (js (JStream 7)) \<noteq> JStream 7
   \<and> JStr (js (JBuffer [1, 2, 3])) \<noteq> JBuffer [1, 2, 3]"
  by (simp add: service_defs test_defs headers_defs)

text \<open>
  C5. When the payload of the descriptor the request interceptors return is an object
  or an array, the body handed to the transport is its JSON serialization, a
  \<open>Content-Type\<close> header is present, and it is \<open>application/json\<close> when neither the
  default headers \<open>D\<close> nor the per-call headers \<open>C\<close> have a \<open>Content-Type\<close> property.
\<close>

theorem structured_body_is_json:
  assumes phase: "applyRequestInterceptors this config (w, lg) = (Inr fc, w1, lg1)"
    and call: "executeRequest pf this config (w, lg) = (r, w', lg')"
    and defaults: "D = deref w1 (opt_headers (options this))"
    and percall: "C = deref w1 (cfg_headers fc)"
    and structured: "cfg_data fc = JObj ps \<or> cfg_data fc = JArr xs"
  shows "\<exists>u opts hs.
           dispatches lg' = dispatches lg @ [(u, opts, hs)]
           \<and> uo_body opts = JStr (JSON_stringify pf (cfg_data fc))
           \<and> map_of hs ''Content-Type'' \<noteq> None
           \<and> (''Content-Type'' \<notin> fst ` set D \<union> fst ` set C \<longrightarrow>
                map_of hs ''Content-Type'' = Some ''application/json'')"
proof -
  obtain h w2 where m: "mergeHeaders this fc w1 = (h, w2)" by (cases "mergeHeaders this fc w1")
  obtain b w3 where p: "prepareRequestBody pf fc h w2 = (b, w3)"
    by (cases "prepareRequestBody pf fc h w2")
  from executeRequest_dispatches [OF phase call m p] obtain opts where
    d: "dispatches lg' = dispatches lg @ [(buildUrl this fc, opts, heap w3 ! h)]" and b: "uo_body opts = b"
    by blast
  have s: "truthy (cfg_data fc) \<and> isJsonSerializable (cfg_data fc)"
    using structured by (auto simp: isJsonSerializable_def)
  note pr = prepared(2,3) [OF m p refl]
  have body: "b = JStr (JSON_stringify pf (cfg_data fc))"
    using pr(1) s by simp
  have present: "map_of (heap w3 ! h) ''Content-Type'' \<noteq> None"
    using pr(2) s by (simp add: update_conv')
  have added: "map_of (heap w3 ! h) ''Content-Type'' = Some ''application/json''"
    if "''Content-Type'' \<notin> fst ` set D \<union> fst ` set C"
    using pr(2) s that defaults percall
    by (simp add: update_conv' map_of_merged_absent DEFAULT_CONTENT_TYPE_def)
  show ?thesis
    using d b body present added by blast
qed

theorem structured_body_is_json_witness:
  "\<exists>u opts hs.
     dispatches (snd (snd (post (test_platform 201) test_service ''/users''
                             (JObj [(''name'', JStr ''New User'')]) None (test_world, []))))
       = [(u, opts, hs)]
     \<and> uo_body opts = JStr ''{\"name\":\"New User\"}''
     \<and> map_of hs ''Content-Type'' = Some ''application/json''"
proof -
  let ?cfg = "emptyConfig\<lparr>cfg_url := Some ''/users'', cfg_method := Some POST,
                          cfg_data := JObj [(''name'', JStr ''New User'')]\<rparr>"
  have p: "applyRequestInterceptors test_service ?cfg (test_world, []) = (Inr ?cfg, test_world, [])"
    by (simp add: service_defs test_defs)
  obtain r w l where c: "executeRequest (test_platform 201) test_service ?cfg (test_world, []) = (r, w, l)"
    by (metis prod_cases3)
  have s: "cfg_data ?cfg = JObj [(''name'', JStr ''New User'')] \<or> cfg_data ?cfg = JArr []"
    by simp
  have j: "JSON_stringify (test_platform 201) (JObj [(''name'', JStr ''New User'')])
             = ''{\"name\":\"New User\"}''"
    by (simp add: test_defs quoteJSON_def)
  have a: "''Content-Type'' \<notin> fst ` set (deref test_world (opt_headers (options test_service)))
             \<union> fst ` set (deref test_world (cfg_headers ?cfg))"
    by (simp add: service_defs test_defs)
  from structured_body_is_json [OF p c refl refl s] a j show ?thesis
    using c by (auto simp: post_def request_def withConfig_def)
qed

text \<open>
  C6, as amended. The headers handed to the transport are the default headers \<open>D\<close>
  overlaid by the per-call headers \<open>C\<close> of the descriptor the request interceptors
  return, \<open>C\<close> winning on a common key; and when the payload is serialized to JSON, the
  \<open>Content-Type\<close> of that union, or \<open>application/json\<close> when the union has none or an
  empty one, is set on top.
\<close>

theorem dispatched_headers_merge:
  assumes phase: "applyRequestInterceptors this config (w, lg) = (Inr fc, w1, lg1)"
    and call: "executeRequest pf this config (w, lg) = (r, w', lg')"
    and defaults: "D = deref w1 (opt_headers (options this))"
    and percall: "C = deref w1 (cfg_headers fc)"
    and objects: "distinct (map fst D)" "distinct (map fst C)"
  shows "\<exists>u opts hs.
           dispatches lg' = dispatches lg @ [(u, opts, hs)]
           \<and> map_of hs =
               (if truthy (cfg_data fc) \<and> isJsonSerializable (cfg_data fc)
                then (map_of D ++ map_of C)
                       (''Content-Type'' \<mapsto>
                          (case (map_of D ++ map_of C) ''Content-Type'' of
                             Some v \<Rightarrow> if v \<noteq> [] then v else ''application/json''
                           | None \<Rightarrow> ''application/json''))
                else map_of D ++ map_of C)"
proof -
  obtain h w2 where m: "mergeHeaders this fc w1 = (h, w2)" by (cases "mergeHeaders this fc w1")
  obtain b w3 where p: "prepareRequestBody pf fc h w2 = (b, w3)"
    by (cases "prepareRequestBody pf fc h w2")
  from executeRequest_dispatches [OF phase call m p] obtain opts where
    d: "dispatches lg' = dispatches lg @ [(buildUrl this fc, opts, heap w3 ! h)]"
    by blast
  have mm: "map_of (spread C (spread D [])) = map_of D ++ map_of C"
    using objects by (rule map_of_merged)
  have "map_of (heap w3 ! h) =
               (if truthy (cfg_data fc) \<and> isJsonSerializable (cfg_data fc)
                then (map_of D ++ map_of C)
                       (''Content-Type'' \<mapsto>
                          (case (map_of D ++ map_of C) ''Content-Type'' of
                             Some v \<Rightarrow> if v \<noteq> [] then v else ''application/json''
                           | None \<Rightarrow> ''application/json''))
                else map_of D ++ map_of C)"
    unfolding prepared(3) [OF m p refl] defaults [symmetric] percall [symmetric]
      DEFAULT_CONTENT_TYPE_def
    by (simp add: mm update_conv')
  with d show ?thesis by blast
qed

theorem dispatched_headers_merge_witness:
  "\<exists>u opts hs.
     dispatches (snd (snd (get (test_platform 200) headers_service ''/users/1''
                             (Some (emptyConfig\<lparr>cfg_headers := Some 1\<rparr>)) (headers_world, []))))
       = [(u, opts, hs)]
     \<and> map_of hs =
         map_of [(''User-Agent'', ''NestJS-Undici-Client''), (''Accept'', ''text/plain'')]
         ++ map_of [(''Accept'', ''application/json''), (''Authorization'', ''Bearer token'')]
     \<and> map_of hs ''Accept'' = Some ''application/json''
     \<and> map_of hs ''User-Agent'' = Some ''NestJS-Undici-Client''"
proof -
  let ?cfg = "emptyConfig\<lparr>cfg_headers := Some 1, cfg_url := Some ''/users/1'', cfg_method := Some GET\<rparr>"
  have p: "applyRequestInterceptors headers_service ?cfg (headers_world, []) = (Inr ?cfg, headers_world, [])"
    by (simp add: service_defs test_defs headers_defs)
  obtain r w l where c: "executeRequest (test_platform 200) headers_service ?cfg (headers_world, []) = (r, w, l)"
    by (metis prod_cases3)
  have d: "[(''User-Agent'', ''NestJS-Undici-Client''), (''Accept'', ''text/plain'')]
             = deref headers_world (opt_headers (options headers_service))"
    by (simp add: service_defs test_defs headers_defs)
  have k: "[(''Accept'', ''application/json''), (''Authorization'', ''Bearer token'')]
             = deref headers_world (cfg_headers ?cfg)"
    by (simp add: service_defs test_defs headers_defs)
  have t: "\<not> truthy (cfg_data ?cfg)" by (simp add: emptyConfig_def)
  from dispatched_headers_merge [OF p c d k] t show ?thesis
    using c by (auto simp: get_def request_def withConfig_def)
qed

text \<open>
  The claim as stated fails for a JSON payload sent without a content type: the
  transport gets \<open>Content-Type: application/json\<close>, which is in neither \<open>D\<close> nor \<open>C\<close>.
\<close>

theorem content_type_added_counterexample:
  "map (snd \<circ> snd) (dispatches (snd (snd (post (test_platform 201) test_service ''/users''
                             (JObj [(''name'', JStr ''New User'')]) None (test_world, [])))))
     = [[(''Content-Type'', ''application/json'')]]
   \<and> deref test_world (opt_headers (options test_service)) = []
   \<and> deref test_world (cfg_headers emptyConfig) = []
   \<and> (map_of ([] :: hdrs) ++ map_of ([] :: hdrs)) ''Content-Type'' = None
   \<and> map_of [(''Content-Type'', ''application/json'')] ''Content-Type'' = Some ''application/json''"
  by (simp add: service_defs test_defs)

section \<open>Request interceptors in registration order\<close>



section \<open>Failures after dispatch\<close>

lemma hooks_upt_Cons:
  "filter (\<lambda>j. P ((x # xs) ! j)) [0..<Suc (length xs)] =
     (if P x then [0] else []) @ map Suc (filter (\<lambda>j. P (xs ! j)) [0..<length xs])"
proof -
  have "[0..<Suc (length xs)] = 0 # map Suc [0..<length xs]"
    by (simp add: upt_conv_Cons map_Suc_upt del: upt_Suc)
  then show ?thesis
    by (simp add: filter_map comp_def del: upt_Suc)
qed

lemma map_plus_zero: "map ((+) (0::nat)) xs = xs"
  by (induction xs) auto

lemma broadcast_log:
  assumes "\<forall>ic \<in> set ics. \<forall>g. rs_onError ic = Some g \<longrightarrow> (\<forall>wx. fst (g e wx) = Inr ())"
  shows "\<exists>w'. handleRequestError_from i ics e (w, lg) =
           (Inr (), w',
            lg @ map (\<lambda>j. ResOnError j e)
                   (map ((+) i) (filter (\<lambda>j. hasOnError (ics ! j)) [0..<length ics])))"
  using assms
proof (induction ics arbitrary: i w lg)
  case Nil
  then show ?case by simp
next
  case (Cons x xs)
  then have rest: "\<forall>ic \<in> set xs. \<forall>g. rs_onError ic = Some g \<longrightarrow> (\<forall>wx. fst (g e wx) = Inr ())"
    by simp
  show ?case
  proof (cases "rs_onError x")
    case None
    then have hx: "\<not> hasOnError x" by (simp add: hasOnError_def)
    from Cons.IH [OF rest, of "Suc i" w lg] None show ?thesis
      by (auto simp: hooks_upt_Cons hx comp_def simp del: upt_Suc)
  next
    case (Some g)
    then have hx: "hasOnError x" by (simp add: hasOnError_def)
    from Cons.prems Some have "fst (g e w) = Inr ()" by simp
    then obtain w1 where g: "g e w = (Inr (), w1)" by (cases "g e w") auto
    from Cons.IH [OF rest, of "Suc i" w1 "lg @ [ResOnError i e]"] Some g show ?thesis
      by (auto simp: hooks_upt_Cons hx comp_def simp del: upt_Suc)
  qed
qed

text \<open>
  C1. A failing \<open>onResponse\<close> hook is caught twice: by \<open>applyResponseInterceptors\<close>, which
  calls the failing interceptor's own \<open>onError\<close>, and then by the \<open>catch\<close> of
  \<open>executeRequest\<close>, inside whose \<open>try\<close> the response phase runs, which calls
  \<open>handleRequestError\<close>. With response interceptors \<open>A\<close>, \<open>B\<close>, \<open>C\<close> and \<open>B\<close> failing,
  \<open>C\<close>'s \<open>onResponse\<close> is never invoked, but \<open>B\<close>'s \<open>onError\<close> is invoked twice and those
  of \<open>A\<close> and \<open>C\<close> once each.
\<close>

theorem response_failure_is_broadcast:
  "get (test_platform 200) (response_service [rsA, rsB, rsC]) ''/users'' None (test_world, []) =
     (Inl (Error ''B failed''), \<lparr>heap = [[]], ext = ()\<rparr>,
      [Dispatch ''https://api.test.com/users''
         \<lparr>uo_method = GET, uo_headers = 0, uo_body = JUndefined, uo_dispatcher = 0,
          uo_bodyTimeout = Some 5000\<rparr> [],
       ResOnResponse 0
         \<lparr>res_data = JObj [(''id'', JNum 1), (''name'', JStr ''Test'')], res_status = 200,
          res_statusText = ''OK'', res_headers = []\<rparr>,
       ResOnResponse 1
         \<lparr>res_data = JObj [(''id'', JNum 1), (''name'', JStr ''Test'')], res_status = 200,
          res_statusText = ''OK'', res_headers = [(''x-seen'', [''A''])]\<rparr>,
       ResOnError 1 (Error ''B failed''),
       ResOnError 0 (Error ''B failed''),
       ResOnError 1 (Error ''B failed''),
       ResOnError 2 (Error ''B failed'')])"
  by (simp add: service_defs test_defs response_defs)

text \<open>
  C2, as amended. When the transport rejects with \<open>e\<close> and no \<open>onError\<close> hook of a
  response interceptor throws, the log after the dispatch is one \<open>onError\<close> invocation
  with \<open>e\<close> for each response interceptor that has the hook, in registration order, and
  the call rejects with \<open>e\<close>.
\<close>

theorem dispatch_failure_broadcast:
  assumes phase: "applyRequestInterceptors this config (w, lg) = (Inr fc, w1, lg1)"
    and merge: "mergeHeaders this fc w1 = (h, w2)"
    and prepare: "prepareRequestBody pf fc h w2 = (b, w3)"
    and rejects: "performRequest pf this (buildUrl this fc) fc h b (w3, lg1) = (Inl e, w4, lg4)"
    and hooks: "\<forall>ic \<in> set (responseInterceptors this).
                  \<forall>g. rs_onError ic = Some g \<longrightarrow> (\<forall>wx. fst (g e wx) = Inr ())"
  shows "\<exists>w'. executeRequest pf this config (w, lg) =
           (Inl e, w',
            lg4 @ map (\<lambda>i. ResOnError i e)
                    (filter (\<lambda>i. hasOnError (responseInterceptors this ! i))
                       [0..<length (responseInterceptors this)]))"
proof -
  from broadcast_log [OF hooks, of 0 w4 lg4] obtain w' where
    "handleRequestError this e (w4, lg4) =
       (Inr (), w',
        lg4 @ map (\<lambda>i. ResOnError i e)
                (filter (\<lambda>i. hasOnError (responseInterceptors this ! i))
                   [0..<length (responseInterceptors this)]))"
    by (auto simp: handleRequestError_def map_plus_zero)
  then show ?thesis
    using phase merge prepare rejects
    by (simp add: executeRequest_def tryDispatch_def)
qed

theorem dispatch_failure_broadcast_witness:
  "\<exists>w'. get failing_platform (response_service [rsA, rsQuiet, rsC]) ''/users'' None (test_world, []) =
     (Inl (Error ''Network error''), w',
      [Dispatch ''https://api.test.com/users''
         \<lparr>uo_method = GET, uo_headers = 0, uo_body = JUndefined, uo_dispatcher = 0,
          uo_bodyTimeout = Some 5000\<rparr> [],
       ResOnError 0 (Error ''Network error''),
       ResOnError 2 (Error ''Network error'')])"
proof -
  let ?svc = "response_service [rsA, rsQuiet, rsC]"
  let ?cfg = "emptyConfig\<lparr>cfg_url := Some ''/users'', cfg_method := Some GET\<rparr>"
  let ?w = "\<lparr>heap = [[]], ext = ()\<rparr>"
  have ics: "responseInterceptors ?svc = [rsA, rsQuiet, rsC]"
    by (simp add: service_defs test_defs response_defs)
  have p: "applyRequestInterceptors ?svc ?cfg (test_world, []) = (Inr ?cfg, test_world, [])"
    by (simp add: service_defs test_defs response_defs)
  have m: "mergeHeaders ?svc ?cfg test_world = (0, ?w)"
    by (simp add: service_defs test_defs response_defs)
  have b: "prepareRequestBody failing_platform ?cfg 0 ?w = (JUndefined, ?w)"
    by (simp add: service_defs)
  have r: "performRequest failing_platform ?svc (buildUrl ?svc ?cfg) ?cfg 0 JUndefined (?w, []) =
      (Inl (Error ''Network error''), ?w,
       [Dispatch ''https://api.test.com/users''
         \<lparr>uo_method = GET, uo_headers = 0, uo_body = JUndefined, uo_dispatcher = 0,
          uo_bodyTimeout = Some 5000\<rparr> []])"
    by (simp add: service_defs test_defs response_defs)
  have h: "\<forall>ic \<in> set (responseInterceptors ?svc).
             \<forall>g. rs_onError ic = Some g \<longrightarrow> (\<forall>wx. fst (g (Error ''Network error'') wx) = Inr ())"
    unfolding ics by (auto simp: rsA_def rsQuiet_def rsC_def)
  have f: "filter (\<lambda>i. hasOnError ([rsA, rsQuiet, rsC] ! i)) [0..<length [rsA, rsQuiet, rsC]] = [0, 2]"
    by (simp add: hasOnError_def rsA_def rsQuiet_def rsC_def upt_rec)
  from dispatch_failure_broadcast [OF p m b r h, unfolded ics f] show ?thesis
    by (simp add: get_def request_def withConfig_def)
qed

text \<open>
  The claim as stated fails when an \<open>onError\<close> hook throws: the loop of
  \<open>handleRequestError\<close> ends there, the later hooks are not invoked, and the call rejects
  with the hook's error.
\<close>

theorem failing_error_hook_counterexample:
  "get failing_platform (response_service [rsThrowing, rsC]) ''/users'' None (test_world, []) =
     (Inl (Error ''hook failed''), \<lparr>heap = [[]], ext = ()\<rparr>,
      [Dispatch ''https://api.test.com/users''
         \<lparr>uo_method = GET, uo_headers = 0, uo_body = JUndefined, uo_dispatcher = 0,
          uo_bodyTimeout = Some 5000\<rparr> [],
       ResOnError 0 (Error ''Network error'')])
   \<and> rs_onError rsC \<noteq> None
   \<and> Error ''hook failed'' \<noteq> Error ''Network error''"
  by (simp add: service_defs test_defs response_defs)

section \<open>The configuration is left alone\<close>

lemma keepsObject_holds: "keepsObject a f \<Longrightarrow> holds a v w \<Longrightarrow> f w = (r, w') \<Longrightarrow> holds a v w'"
  by (auto simp: keepsObject_def holds_def dest!: spec [of _ w])

lemma request_loop_holds:
  assumes "\<forall>ic \<in> set ics. (\<forall>f c. rq_onRequest ic = Some f \<longrightarrow> keepsObject a (f c))
                          \<and> (\<forall>g e. rq_onError ic = Some g \<longrightarrow> keepsObject a (g e))"
    and "holds a v w"
    and "applyRequestInterceptors_from i ics c (w, lg) = (r, w', lg')"
  shows "holds a v w'"
  using assms
proof (induction ics arbitrary: i c w lg)
  case Nil
  then show ?case by simp
next
  case (Cons x xs)
  then have rest: "\<forall>ic \<in> set xs. (\<forall>f c. rq_onRequest ic = Some f \<longrightarrow> keepsObject a (f c))
                          \<and> (\<forall>g e. rq_onError ic = Some g \<longrightarrow> keepsObject a (g e))"
    by simp
  show ?case
  proof (cases "rq_onRequest x")
    case None
    with Cons.prems(3) have "applyRequestInterceptors_from (Suc i) xs c (w, lg) = (r, w', lg')"
      by simp
    from Cons.IH [OF rest Cons.prems(2) this] show ?thesis .
  next
    case (Some f)
    obtain r1 w1 where f: "f c w = (r1, w1)" by (cases "f c w")
    have kf: "keepsObject a (f c)" using Cons.prems(1) Some by simp
    have h1: "holds a v w1" using keepsObject_holds [OF kf Cons.prems(2) f] .
    show ?thesis
    proof (cases r1)
      case (Inr c1)
      with Cons.prems(3) Some f
      have "applyRequestInterceptors_from (Suc i) xs c1 (w1, lg @ [ReqOnRequest i c]) = (r, w', lg')"
        by simp
      from Cons.IH [OF rest h1 this] show ?thesis .
    next
      case (Inl e)
      show ?thesis
      proof (cases "rq_onError x")
        case None
        with Cons.prems(3) Some f Inl h1 show ?thesis by simp
      next
        case (Some g)
        obtain r2 w2 where g: "g e w1 = (r2, w2)" by (cases "g e w1")
        have kg: "keepsObject a (g e)" using Cons.prems(1) Some by simp
        have "holds a v w2" using keepsObject_holds [OF kg h1 g] .
        with Cons.prems(3) \<open>rq_onRequest x = Some f\<close> f Inl Some g show ?thesis
          by (cases r2) auto
      qed
    qed
  qed
qed

lemma response_loop_holds:
  assumes "\<forall>ic \<in> set ics. (\<forall>f c. rs_onResponse ic = Some f \<longrightarrow> keepsObject a (f c))
                          \<and> (\<forall>g e. rs_onError ic = Some g \<longrightarrow> keepsObject a (g e))"
    and "holds a v w"
    and "applyResponseInterceptors_from i ics c (w, lg) = (r, w', lg')"
  shows "holds a v w'"
  using assms
proof (induction ics arbitrary: i c w lg)
  case Nil
  then show ?case by simp
next
  case (Cons x xs)
  then have rest: "\<forall>ic \<in> set xs. (\<forall>f c. rs_onResponse ic = Some f \<longrightarrow> keepsObject a (f c))
                          \<and> (\<forall>g e. rs_onError ic = Some g \<longrightarrow> keepsObject a (g e))"
    by simp
  show ?case
  proof (cases "rs_onResponse x")
    case None
    with Cons.prems(3) have "applyResponseInterceptors_from (Suc i) xs c (w, lg) = (r, w', lg')"
      by simp
    from Cons.IH [OF rest Cons.prems(2) this] show ?thesis .
  next
    case (Some f)
    obtain r1 w1 where f: "f c w = (r1, w1)" by (cases "f c w")
    have kf: "keepsObject a (f c)" using Cons.prems(1) Some by simp
    have h1: "holds a v w1" using keepsObject_holds [OF kf Cons.prems(2) f] .
    show ?thesis
    proof (cases r1)
      case (Inr c1)
      with Cons.prems(3) Some f
      have "applyResponseInterceptors_from (Suc i) xs c1 (w1, lg @ [ResOnResponse i c]) = (r, w', lg')"
        by simp
      from Cons.IH [OF rest h1 this] show ?thesis .
    next
      case (Inl e)
      show ?thesis
      proof (cases "rs_onError x")
        case None
        with Cons.prems(3) Some f Inl h1 show ?thesis by simp
      next
        case (Some g)
        obtain r2 w2 where g: "g e w1 = (r2, w2)" by (cases "g e w1")
        have kg: "keepsObject a (g e)" using Cons.prems(1) Some by simp
        have "holds a v w2" using keepsObject_holds [OF kg h1 g] .
        with Cons.prems(3) \<open>rs_onResponse x = Some f\<close> f Inl Some g show ?thesis
          by (cases r2) auto
      qed
    qed
  qed
qed

lemma broadcast_holds:
  assumes "\<forall>ic \<in> set ics. \<forall>g e. rs_onError ic = Some g \<longrightarrow> keepsObject a (g e)"
    and "holds a v w"
    and "handleRequestError_from i ics e (w, lg) = (r, w', lg')"
  shows "holds a v w'"
  using assms
proof (induction ics arbitrary: i w lg)
  case Nil
  then show ?case by simp
next
  case (Cons x xs)
  then have rest: "\<forall>ic \<in> set xs. \<forall>g e. rs_onError ic = Some g \<longrightarrow> keepsObject a (g e)"
    by simp
  show ?case
  proof (cases "rs_onError x")
    case None
    with Cons.prems(3) have "handleRequestError_from (Suc i) xs e (w, lg) = (r, w', lg')"
      by simp
    from Cons.IH [OF rest Cons.prems(2) this] show ?thesis .
  next
    case (Some g)
    obtain r1 w1 where g: "g e w = (r1, w1)" by (cases "g e w")
    have kg: "keepsObject a (g e)" using Cons.prems(1) Some by simp
    have h1: "holds a v w1" using keepsObject_holds [OF kg Cons.prems(2) g] .
    show ?thesis
    proof (cases r1)
      case (Inr u)
      with Cons.prems(3) Some g
      have "handleRequestError_from (Suc i) xs e (w1, lg @ [ResOnError i e]) = (r, w', lg')"
        by simp
      from Cons.IH [OF rest h1 this] show ?thesis .
    next
      case (Inl e')
      with Cons.prems(3) Some g h1 show ?thesis by simp
    qed
  qed
qed

lemma mergeHeaders_holds:
  "holds a v w \<Longrightarrow> mergeHeaders this fc w = (h, w') \<Longrightarrow> holds a v w' \<and> a < h \<and> h < length (heap w')"
  by (auto simp: holds_def mergeHeaders_def alloc_def nth_append)

lemma prepareRequestBody_holds:
  "holds a v w \<Longrightarrow> a \<noteq> h \<Longrightarrow> prepareRequestBody pf fc h w = (b, w') \<Longrightarrow> holds a v w'"
  by (auto simp: holds_def prepareRequestBody_def Let_def split: if_splits)

lemma performRequest_holds:
  "\<forall>u opts. keepsObject a (undici_request pf u opts) \<Longrightarrow> holds a v w \<Longrightarrow>
   performRequest pf this u fc h b (w, lg) = (r, w', lg') \<Longrightarrow> holds a v w'"
  by (auto simp: performRequest_def Let_def split: prod.splits dest: keepsObject_holds)

lemma executeRequest_holds:
  assumes fr: "framed a pf this"
    and h: "holds a v w"
    and ex: "executeRequest pf this config (w, lg) = (r, w', lg')"
  shows "holds a v w'"
proof -
  from fr have rq: "\<forall>ic \<in> set (requestInterceptors this).
          (\<forall>f c. rq_onRequest ic = Some f \<longrightarrow> keepsObject a (f c))
        \<and> (\<forall>g e. rq_onError ic = Some g \<longrightarrow> keepsObject a (g e))"
    and rs: "\<forall>ic \<in> set (responseInterceptors this).
          (\<forall>f r. rs_onResponse ic = Some f \<longrightarrow> keepsObject a (f r))
        \<and> (\<forall>g e. rs_onError ic = Some g \<longrightarrow> keepsObject a (g e))"
    and tr: "\<forall>u opts. keepsObject a (undici_request pf u opts)"
    by (simp_all add: framed_def)
  from rs have rse: "\<forall>ic \<in> set (responseInterceptors this).
      \<forall>g e. rs_onError ic = Some g \<longrightarrow> keepsObject a (g e)"
    by blast
  obtain r1 w1 lg1 where p: "applyRequestInterceptors this config (w, lg) = (r1, w1, lg1)"
    by (metis prod_cases3)
  have h1: "holds a v w1"
    using request_loop_holds [OF rq h] p by (simp add: applyRequestInterceptors_def)
  show ?thesis
  proof (cases r1)
    case (Inl e)
    with p ex h1 show ?thesis by (simp add: executeRequest_def)
  next
    case (Inr fc)
    obtain hd w2 where m: "mergeHeaders this fc w1 = (hd, w2)" by (cases "mergeHeaders this fc w1")
    obtain b w3 where b: "prepareRequestBody pf fc hd w2 = (b, w3)"
      by (cases "prepareRequestBody pf fc hd w2")
    from mergeHeaders_holds [OF h1 m] have h2: "holds a v w2" and ne: "a \<noteq> hd" by auto
    from prepareRequestBody_holds [OF h2 ne b] have h3: "holds a v w3" .
    obtain r4 w4 lg4 where t: "tryDispatch pf this (buildUrl this fc) fc hd b (w3, lg1) = (r4, w4, lg4)"
      by (metis prod_cases3)
    have h4: "holds a v w4"
    proof -
      obtain r5 w5 lg5 where
        pr: "performRequest pf this (buildUrl this fc) fc hd b (w3, lg1) = (r5, w5, lg5)"
        by (metis prod_cases3)
      from performRequest_holds [OF tr h3 pr] have h5: "holds a v w5" .
      show ?thesis
      proof (cases r5)
        case (Inl e)
        with t pr h5 show ?thesis by (simp add: tryDispatch_def)
      next
        case (Inr response)
        show ?thesis
        proof (cases "parseResponseData response fc")
          case (Inl e)
          with t pr Inr h5 show ?thesis by (simp add: tryDispatch_def)
        next
          case (Inr d)
          with t pr \<open>r5 = Inr response\<close>
          have "applyResponseInterceptors_from 0 (responseInterceptors this)
                  (createHttpResponse response d) (w5, lg5) = (r4, w4, lg4)"
            by (simp add: tryDispatch_def applyResponseInterceptors_def)
          from response_loop_holds [OF rs h5 this] show ?thesis .
        qed
      qed
    qed
    show ?thesis
    proof (cases r4)
      case (Inr res)
      with ex p \<open>r1 = Inr fc\<close> m b t h4 show ?thesis by (simp add: executeRequest_def)
    next
      case (Inl e)
      obtain r6 w6 lg6 where hr: "handleRequestError this e (w4, lg4) = (r6, w6, lg6)"
        by (metis prod_cases3)
      then have "holds a v w6"
        using broadcast_holds [OF rse h4] by (simp add: handleRequestError_def)
      with ex p \<open>r1 = Inr fc\<close> m b t Inl hr show ?thesis
        by (cases r6) (auto simp: executeRequest_def)
    qed
  qed
qed

lemma executeRequest_defaultsKept:
  assumes fr: "framed a pf this"
    and cfg: "opt_headers (options this) = Some a"
    and live: "a < length (heap w)"
  shows "defaultsKept this w (executeRequest pf this config (w, lg))"
proof -
  obtain r w' lg' where ex: "executeRequest pf this config (w, lg) = (r, w', lg')"
    by (metis prod_cases3)
  have "holds a (heap w ! a) w" using live by (simp add: holds_def)
  from executeRequest_holds [OF fr this ex] show ?thesis
    using live by (simp add: defaultsKept_def ex cfg deref_def holds_def)
qed

text \<open>
  C10. The service is an argument no operation returns changed: base URL, timeout, pool
  parameters and interceptor lists are values of the record \<open>this\<close>. The one part of the
  configuration a call could write to is the default headers object, held by reference.
  For each of the seven operations, when the hooks and the transport keep that object,
  it reads after the call as before, whether the call succeeds or fails:
  \<open>mergeHeaders\<close> puts the merged headers in a new object, and \<open>prepareRequestBody\<close>
  writes \<open>Content-Type\<close> into that one, also when the per-call headers are the default
  headers object itself.
\<close>

theorem configuration_unchanged:
  assumes fr: "framed a pf this"
    and cfg: "opt_headers (options this) = Some a"
    and live: "a < length (heap w)"
  shows "defaultsKept this w (request pf this config (w, lg))
       \<and> defaultsKept this w (get pf this u c (w, lg))
       \<and> defaultsKept this w (post pf this u d c (w, lg))
       \<and> defaultsKept this w (put pf this u d c (w, lg))
       \<and> defaultsKept this w (delete pf this u c (w, lg))
       \<and> defaultsKept this w (patch pf this u d c (w, lg))
       \<and> defaultsKept this w (head pf this u c (w, lg))"
  by (simp add: request_def get_def post_def put_def delete_def patch_def head_def
      executeRequest_defaultsKept [OF fr cfg live])

theorem configuration_unchanged_witness:
  "opt_headers (options headers_service) = Some 0
   \<and> deref (fst (snd (post (test_platform 201) headers_service ''/users''
                        (JObj [(''name'', JStr ''New User'')])
                        (Some (emptyConfig\<lparr>cfg_headers := Some 0\<rparr>)) (headers_world, []))))
        (opt_headers (options headers_service))
       = [(''User-Agent'', ''NestJS-Undici-Client''), (''Accept'', ''text/plain'')]
   \<and> heap (fst (snd (post (test_platform 201) headers_service ''/users''
                        (JObj [(''name'', JStr ''New User'')])
                        (Some (emptyConfig\<lparr>cfg_headers := Some 0\<rparr>)) (headers_world, [])))) ! 3
       = [(''User-Agent'', ''NestJS-Undici-Client''), (''Accept'', ''text/plain''),
          (''Content-Type'', ''application/json'')]"
proof -
  have cfg: "opt_headers (options headers_service) = Some 0"
    by (simp add: service_defs test_defs headers_defs)
  have live: "0 < length (heap headers_world)"
    by (simp add: headers_defs)
  have fr: "framed 0 (test_platform 201) headers_service"
    by (simp add: framed_def keepsObject_def service_defs test_defs headers_defs)
  have d: "deref headers_world (opt_headers (options headers_service))
             = [(''User-Agent'', ''NestJS-Undici-Client''), (''Accept'', ''text/plain'')]"
    by (simp add: service_defs test_defs headers_defs)
  have e: "heap (fst (snd (post (test_platform 201) headers_service ''/users''
                        (JObj [(''name'', JStr ''New User'')])
                        (Some (emptyConfig\<lparr>cfg_headers := Some 0\<rparr>)) (headers_world, [])))) ! 3
       = [(''User-Agent'', ''NestJS-Undici-Client''), (''Accept'', ''text/plain''),
          (''Content-Type'', ''application/json'')]"
    by (simp add: service_defs test_defs headers_defs)
  from configuration_unchanged [OF fr cfg live, of emptyConfig "[]" "''/users''"
      "Some (emptyConfig\<lparr>cfg_headers := Some 0\<rparr>)" "JObj [(''name'', JStr ''New User'')]"]
  show ?thesis
    using cfg d e by (simp add: defaultsKept_def)
qed

end
